theory Spec2Isabelle
  imports
    Complex_Main
    "HOL-Library.Multiset"
    "HOL-Library.Sublist"
    "HOL-Library.Char_ord"
    "HOL-Library.List_Lexorder"
begin

section \<open>JavaScript values\<close>

text \<open>
  The screener works on the records of a parsed JSON answer. A field of such a record
  holds \<open>null\<close>, a boolean, a number or a string; a field that is absent reads as
  \<open>undefined\<close>. Numbers are the finite numbers JSON can write, taken as exact
  rationals (the rounding of a decimal to binary64 is not modelled; the order of two
  doubles is the order of the rationals they denote). Strings are ASCII character
  lists. A field that holds an object or an array is not modelled: the API sends none in
  the fields the screener reads, and \<open><\<close> and \<open>>\<close> on an object can raise. Whatever
  is proved below is proved of records whose fields hold these five kinds of value.
\<close>

datatype jsval = Undefined | Null | Bool bool | Num rat | Str string

datatype jsnum = NaN | NegInfinity | Finite rat | PosInfinity

datatype jserror = TypeError

text \<open>\<open>ToBoolean\<close>: what \<open>if (v)\<close>, \<open>v || w\<close> and \<open>filter(Boolean)\<close> test.\<close>

fun ToBoolean :: "jsval \<Rightarrow> bool" where
  "ToBoolean Undefined = False"
| "ToBoolean Null = False"
| "ToBoolean (Bool b) = b"
| "ToBoolean (Num q) = (q \<noteq> 0)"
| "ToBoolean (Str s) = (s \<noteq> [])"

text \<open>\<open>a ?? d\<close>: the default replaces \<open>null\<close> and \<open>undefined\<close> only.\<close>

fun nullish :: "jsval \<Rightarrow> jsval \<Rightarrow> jsval" where
  "nullish Undefined d = d"
| "nullish Null d = d"
| "nullish v d = v"

subsection \<open>Strings\<close>

definition toLowerCase_char :: "char \<Rightarrow> char" where
  "toLowerCase_char c =
     (let n = (of_char c :: nat) in if 65 \<le> n \<and> n \<le> 90 then char_of (n + 32) else c)"

definition toLowerCase :: "string \<Rightarrow> string" where
  "toLowerCase s = map toLowerCase_char s"

text \<open>\<open>s.includes(t)\<close>: the first position of \<open>s\<close> at which \<open>t\<close> starts, if any.\<close>

fun str_includes :: "string \<Rightarrow> string \<Rightarrow> bool" where
  "str_includes [] t = (t = [])"
| "str_includes (c # s) t = (prefix t (c # s) \<or> str_includes s t)"

subsection \<open>Conversion of a string to a number\<close>

text \<open>
  \<open>StringToNumber\<close> reads the string numeric literals of the language: white space
  around the literal is dropped, the empty string is 0, a decimal literal may have a
  sign, a fraction and an exponent, \<open>Infinity\<close> may have a sign, and the literals with a
  radix prefix have none. Every other string is \<open>NaN\<close>. The value is the exact value
  of the literal; the language rounds it to binary64, so the two agree where a double
  holds the value exactly, as it does every integer up to \<open>2 ^ 53\<close>.
\<close>

definition is_white_space :: "char \<Rightarrow> bool" where
  "is_white_space c = ((of_char c :: nat) \<in> {9, 10, 11, 12, 13, 32})"

definition trim :: "string \<Rightarrow> string" where
  "trim s = rev (dropWhile is_white_space (rev (dropWhile is_white_space s)))"

definition digit_of :: "char \<Rightarrow> nat option" where
  "digit_of c =
     (let n = (of_char c :: nat) in
      if 48 \<le> n \<and> n \<le> 57 then Some (n - 48)
      else if 97 \<le> n \<and> n \<le> 102 then Some (n - 87)
      else if 65 \<le> n \<and> n \<le> 70 then Some (n - 55)
      else None)"

fun digits_from :: "nat \<Rightarrow> nat \<Rightarrow> string \<Rightarrow> nat option" where
  "digits_from b acc [] = Some acc"
| "digits_from b acc (c # cs) =
     (case digit_of c of
        None \<Rightarrow> None
      | Some d \<Rightarrow> if d < b then digits_from b (acc * b + d) cs else None)"

definition digits :: "nat \<Rightarrow> string \<Rightarrow> nat option" where
  "digits b s = (if s = [] then None else digits_from b 0 s)"


definition exponent_part :: "string \<Rightarrow> int option" where
  "exponent_part s =
     (case s of
        [] \<Rightarrow> None
      | c # cs \<Rightarrow>
          if c = CHR ''+'' then map_option int (digits 10 cs)
          else if c = CHR ''-'' then map_option (\<lambda>n. - int n) (digits 10 cs)
          else map_option int (digits 10 s))"

definition scale10 :: "rat \<Rightarrow> int \<Rightarrow> rat" where
  "scale10 q e = (if 0 \<le> e then q * 10 ^ nat e else q / 10 ^ nat (- e))"

definition is_exp_mark :: "char \<Rightarrow> bool" where
  "is_exp_mark c = (c = CHR ''e'' \<or> c = CHR ''E'')"

definition decimal_literal :: "string \<Rightarrow> rat option" where
  "decimal_literal s =
     (let m = takeWhile (\<lambda>c. \<not> is_exp_mark c) s;
          r = dropWhile (\<lambda>c. \<not> is_exp_mark c) s;
          ip = takeWhile (\<lambda>c. c \<noteq> CHR ''.'') m;
          fr = dropWhile (\<lambda>c. c \<noteq> CHR ''.'') m;
          fp = (if fr = [] then [] else tl fr);
          e = (if r = [] then Some 0 else exponent_part (tl r));
          iv = (if ip = [] then Some 0 else digits 10 ip);
          fv = (if fp = [] then Some 0 else digits 10 fp)
      in if ip = [] \<and> fp = [] then None
         else case (iv, fv, e) of
                (Some i, Some f, Some x) \<Rightarrow>
                  Some (scale10 (of_nat i + of_nat f / 10 ^ length fp) x)
              | _ \<Rightarrow> None)"

definition unsigned_literal :: "string \<Rightarrow> jsnum" where
  "unsigned_literal s =
     (if s = ''Infinity'' then PosInfinity
      else case decimal_literal s of None \<Rightarrow> NaN | Some q \<Rightarrow> Finite q)"

fun negate :: "jsnum \<Rightarrow> jsnum" where
  "negate NaN = NaN"
| "negate NegInfinity = PosInfinity"
| "negate (Finite q) = Finite (- q)"
| "negate PosInfinity = NegInfinity"

definition radix_literal :: "string \<Rightarrow> jsnum option" where
  "radix_literal s =
     (case s of
        c0 # c1 # cs \<Rightarrow>
          if c0 \<noteq> CHR ''0'' then None
          else (let b = (if c1 = CHR ''x'' \<or> c1 = CHR ''X'' then 16
                         else if c1 = CHR ''o'' \<or> c1 = CHR ''O'' then 8
                         else if c1 = CHR ''b'' \<or> c1 = CHR ''B'' then 2 else (0::nat))
                in if b = 0 then None
                   else Some (case digits b cs of None \<Rightarrow> NaN | Some n \<Rightarrow> Finite (of_nat n)))
      | _ \<Rightarrow> None)"

definition StringToNumber :: "string \<Rightarrow> jsnum" where
  "StringToNumber s =
     (let t = trim s in
      if t = [] then Finite 0
      else case radix_literal t of
             Some n \<Rightarrow> n
           | None \<Rightarrow>
               (case t of
                  c # cs \<Rightarrow>
                    if c = CHR ''+'' then unsigned_literal cs
                    else if c = CHR ''-'' then negate (unsigned_literal cs)
                    else unsigned_literal t
                | [] \<Rightarrow> Finite 0))"

fun ToNumber :: "jsval \<Rightarrow> jsnum" where
  "ToNumber Undefined = NaN"
| "ToNumber Null = Finite 0"
| "ToNumber (Bool b) = Finite (if b then 1 else 0)"
| "ToNumber (Num q) = Finite q"
| "ToNumber (Str s) = StringToNumber s"

subsection \<open>The relational operators\<close>

text \<open>
  \<open>x < y\<close> on numbers; \<open>None\<close> is the answer "undefined" that a \<open>NaN\<close> operand
  gives, which both \<open><\<close> and \<open>>\<close> turn into \<open>false\<close>.
\<close>

fun number_lessThan :: "jsnum \<Rightarrow> jsnum \<Rightarrow> bool option" where
  "number_lessThan NaN y = None"
| "number_lessThan x NaN = None"
| "number_lessThan PosInfinity y = Some False"
| "number_lessThan x PosInfinity = Some True"
| "number_lessThan x NegInfinity = Some False"
| "number_lessThan NegInfinity y = Some True"
| "number_lessThan (Finite a) (Finite b) = Some (a < b)"

text \<open>Two strings are compared character by character, everything else as numbers.\<close>

fun IsLessThan :: "jsval \<Rightarrow> jsval \<Rightarrow> bool option" where
  "IsLessThan (Str a) (Str b) = Some (a < b)"
| "IsLessThan x y = number_lessThan (ToNumber x) (ToNumber y)"

definition js_lt :: "jsval \<Rightarrow> jsval \<Rightarrow> bool" where
  "js_lt x y = (IsLessThan x y = Some True)"

definition js_gt :: "jsval \<Rightarrow> jsval \<Rightarrow> bool" where
  "js_gt x y = (IsLessThan y x = Some True)"

subsection \<open>Conversion to a string\<close>

text \<open>
  \<open>ToString\<close> is what the default order of \<open>Array.prototype.sort\<close> compares. The
  decimal form of a number is the runtime's \<open>Number::toString\<close>; it is a parameter
  here, and nothing below depends on what it prints.
\<close>

fun ToString :: "(rat \<Rightarrow> string) \<Rightarrow> jsval \<Rightarrow> string" where
  "ToString nts Undefined = ''undefined''"
| "ToString nts Null = ''null''"
| "ToString nts (Bool b) = (if b then ''true'' else ''false'')"
| "ToString nts (Num q) = nts q"
| "ToString nts (Str s) = s"

section \<open>Records and arrays\<close>

text \<open>
  A record of the API is a JSON object: its fields in order. Reading a field that the
  object does not have gives \<open>undefined\<close>. A collection is an array of such objects;
  the code writes to no field of a record.
\<close>

type_synonym stock = "(string \<times> jsval) list"

definition Get :: "stock \<Rightarrow> string \<Rightarrow> jsval" where
  "Get s k = (case map_of s k of None \<Rightarrow> Undefined | Some v \<Rightarrow> v)"

text \<open>
  \<open>xs.filter(f)\<close> calls \<open>f\<close> on the elements from left to right and keeps those for
  which the answer is truthy. An exception in \<open>f\<close> ends the whole call.
\<close>

fun array_filter :: "('a \<Rightarrow> jserror + jsval) \<Rightarrow> 'a list \<Rightarrow> jserror + 'a list" where
  "array_filter f [] = Inr []"
| "array_filter f (x # xs) =
     (case f x of
        Inl e \<Rightarrow> Inl e
      | Inr v \<Rightarrow>
          (case array_filter f xs of
             Inl e \<Rightarrow> Inl e
           | Inr ys \<Rightarrow> Inr (if ToBoolean v then x # ys else ys)))"

text \<open>\<open>[...new Set(xs)]\<close>: the values of \<open>xs\<close> in the order of their first occurrence.\<close>

definition Set_add :: "'a \<Rightarrow> 'a list \<Rightarrow> 'a list" where
  "Set_add x acc = (if x \<in> set acc then acc else acc @ [x])"

definition Set_values :: "'a list \<Rightarrow> 'a list" where
  "Set_values xs = fold Set_add xs []"

text \<open>
  \<open>xs.sort()\<close> with no comparator: the elements ordered by their strings, elements with
  the same string in the order they had, \<open>undefined\<close> last.
\<close>

definition sort_default :: "(rat \<Rightarrow> string) \<Rightarrow> jsval list \<Rightarrow> jsval list" where
  "sort_default nts xs =
     sort_key (ToString nts) (filter (\<lambda>v. v \<noteq> Undefined) xs) @ filter (\<lambda>v. v = Undefined) xs"

text \<open>
  \<open>xs.sort(cmp)\<close> is the engine's. The screener's comparator never answers 0, not even
  for an element and itself, so the language leaves the order to the engine; the engine
  is a parameter \<open>srt\<close> of the screener. What is assumed of it is \<open>engine_sort\<close>: it
  reorders and does nothing else, and where the comparator orders the elements strictly
  (no two alike, the answers for a pair opposite, and transitive) the result follows the
  comparator.
\<close>

type_synonym 'a sorter = "('a \<Rightarrow> 'a \<Rightarrow> int) \<Rightarrow> 'a list \<Rightarrow> 'a list"

definition orders_strictly :: "('a \<Rightarrow> 'a \<Rightarrow> int) \<Rightarrow> 'a list \<Rightarrow> bool" where
  "orders_strictly cmp xs \<longleftrightarrow>
     distinct xs \<and>
     (\<forall>x \<in> set xs. \<forall>y \<in> set xs. x \<noteq> y \<longrightarrow> cmp x y \<noteq> 0 \<and> (cmp x y < 0 \<longleftrightarrow> 0 < cmp y x)) \<and>
     (\<forall>x \<in> set xs. \<forall>y \<in> set xs. \<forall>z \<in> set xs. cmp x y < 0 \<and> cmp y z < 0 \<longrightarrow> cmp x z < 0)"

definition engine_sort :: "stock sorter \<Rightarrow> bool" where
  "engine_sort srt \<longleftrightarrow>
     (\<forall>cmp xs. mset (srt cmp xs) = mset xs \<and>
        (orders_strictly cmp xs \<longrightarrow> sorted_wrt (\<lambda>x y. cmp x y < 0) (srt cmp xs)))"

text \<open>One such engine, an insertion sort, to run the screener on examples.\<close>

fun insert_by :: "('a \<Rightarrow> 'a \<Rightarrow> int) \<Rightarrow> 'a \<Rightarrow> 'a list \<Rightarrow> 'a list" where
  "insert_by cmp x [] = [x]"
| "insert_by cmp x (y # ys) = (if cmp x y < 0 then x # y # ys else y # insert_by cmp x ys)"

definition insertion_sort :: "'a sorter" where
  "insertion_sort cmp xs = foldr (insert_by cmp) xs []"

text \<open>Another, which takes the elements from the other end.\<close>

definition insertion_sort_rev :: "'a sorter" where
  "insertion_sort_rev cmp xs = insertion_sort cmp (rev xs)"

section \<open>The screener (Screener.jsx)\<close>

datatype direction = Asc | Desc

record sort_config =
  key :: string
  direction :: direction

text \<open>The facets: \<open>[...new Set(stocks.map(s => s.sector).filter(Boolean))].sort()\<close>.\<close>

definition sectors :: "(rat \<Rightarrow> string) \<Rightarrow> stock list \<Rightarrow> jsval list" where
  "sectors nts stocks =
     sort_default nts (Set_values (filter ToBoolean (map (\<lambda>s. Get s ''sector'') stocks)))"

text \<open>
  \<open>v?.toLowerCase().includes(term)\<close>: \<open>undefined\<close> when \<open>v\<close> is \<open>null\<close> or
  \<open>undefined\<close>; a value that is no string has no \<open>toLowerCase\<close>, and the call raises.
\<close>

fun lowered_includes :: "jsval \<Rightarrow> string \<Rightarrow> jserror + jsval" where
  "lowered_includes Undefined term = Inr Undefined"
| "lowered_includes Null term = Inr Undefined"
| "lowered_includes (Str x) term = Inr (Bool (str_includes (toLowerCase x) term))"
| "lowered_includes v term = Inl TypeError"

text \<open>The search callback; \<open>||\<close> reads the name only when the symbol did not match.\<close>

definition search_match :: "string \<Rightarrow> stock \<Rightarrow> jserror + jsval" where
  "search_match term s =
     (case lowered_includes (Get s ''symbol'') term of
        Inl e \<Rightarrow> Inl e
      | Inr v \<Rightarrow> if ToBoolean v then Inr v else lowered_includes (Get s ''name'') term)"

definition sector_match :: "string \<Rightarrow> stock \<Rightarrow> jserror + jsval" where
  "sector_match sectorFilter s = Inr (Bool (Get s ''sector'' = Str sectorFilter))"

definition signal_match :: "string \<Rightarrow> stock \<Rightarrow> jserror + jsval" where
  "signal_match signalFilter s = Inr (Bool (Get s ''signal_type'' = Str signalFilter))"

text \<open>The comparator given to \<open>result.sort\<close>.\<close>

definition compare_stocks :: "sort_config \<Rightarrow> stock \<Rightarrow> stock \<Rightarrow> int" where
  "compare_stocks sortConfig a b =
     (let aVal = nullish (Get a (key sortConfig)) (Num 0);
          bVal = nullish (Get b (key sortConfig)) (Num 0)
      in if direction sortConfig = Asc then (if js_gt aVal bVal then 1 else - 1)
         else (if js_lt aVal bVal then 1 else - 1))"

definition filteredStocks ::
  "stock sorter \<Rightarrow> stock list \<Rightarrow> string \<Rightarrow> string \<Rightarrow> string \<Rightarrow> sort_config
     \<Rightarrow> jserror + stock list" where
  "filteredStocks srt stocks searchTerm sectorFilter signalFilter sortConfig =
     (case (if searchTerm \<noteq> []
            then array_filter (search_match (toLowerCase searchTerm)) stocks
            else Inr stocks) of
        Inl e \<Rightarrow> Inl e
      | Inr r1 \<Rightarrow>
          (case (if sectorFilter \<noteq> []
                 then array_filter (sector_match sectorFilter) r1 else Inr r1) of
             Inl e \<Rightarrow> Inl e
           | Inr r2 \<Rightarrow>
               (case (if signalFilter \<noteq> []
                      then array_filter (signal_match signalFilter) r2 else Inr r2) of
                  Inl e \<Rightarrow> Inl e
                | Inr r3 \<Rightarrow> Inr (srt (compare_stocks sortConfig) r3))))"

definition handleSort :: "sort_config \<Rightarrow> string \<Rightarrow> sort_config" where
  "handleSort prev k =
     \<lparr>key = k, direction = (if key prev = k \<and> direction prev = Desc then Asc else Desc)\<rparr>"

section \<open>The signals view (Signals)\<close>

text \<open>A click on the summary card of a signal type: \<open>setFilter(filter === type ? '' : type)\<close>.\<close>

definition card_click :: "string \<Rightarrow> string \<Rightarrow> string" where
  "card_click filter_now type = (if filter_now = type then [] else type)"

text \<open>
  \<open>filter ? data?.signals?.filter(s => s.signal_type === filter) : data?.signals\<close>;
  \<open>data\<close> is \<open>null\<close> before the first answer, and \<open>None\<close> is \<open>undefined\<close>.
\<close>

record signals_data =
  signals :: "stock list option"

definition filteredSignals :: "string \<Rightarrow> signals_data option \<Rightarrow> stock list option" where
  "filteredSignals filter_now data =
     (let sigs = (case data of None \<Rightarrow> None | Some d \<Rightarrow> signals d)
      in if filter_now \<noteq> []
         then map_option (filter (\<lambda>s. Get s ''signal_type'' = Str filter_now)) sigs
         else sigs)"

section \<open>The market clock (App.jsx)\<close>

text \<open>
  What \<open>isMarketOpen\<close> reads of a \<open>Date\<close>: the day of the week (0 is Sunday, 6 is
  Saturday), the hour and the minute, in local time. The header passes it the current
  time, \<open>new Date()\<close>, which is a valid date; the seconds are not read.
\<close>

record date =
  getDay :: nat
  getHours :: nat
  getMinutes :: nat

definition isMarketOpen :: "date \<Rightarrow> bool" where
  "isMarketOpen d =
     (let day = getDay d;
          hours = getHours d;
          minutes = getMinutes d;
          totalMinutes = hours * 60 + minutes
      in if day = 0 \<or> day = 6 then False
         else (let marketOpen = 9 * 60 + 15;
                   marketClose = 15 * 60 + 30
               in totalMinutes \<ge> marketOpen \<and> totalMinutes \<le> marketClose))"

section \<open>The screener on a store\<close>

text \<open>
  Arrays are objects: \<open>sort\<close> reorders the array it is called on, \<open>filter\<close>,
  \<open>map\<close> and the spread \<open>[...xs]\<close> make a new one. To see which array a
  computation writes, the store holds the arrays by address (the address is the place
  in the list), and the screener's two computations are written once more on it,
  statement by statement.
\<close>

datatype array = Stocks "stock list" | Values "jsval list"

type_synonym store = "array list"

fun stocks_of :: "array \<Rightarrow> stock list" where
  "stocks_of (Stocks xs) = xs"
| "stocks_of (Values vs) = []"

fun values_of :: "array \<Rightarrow> jsval list" where
  "values_of (Values vs) = vs"
| "values_of (Stocks xs) = []"

definition alloc :: "store \<Rightarrow> array \<Rightarrow> store \<times> nat" where
  "alloc st a = (st @ [a], length st)"

definition filter_in_store ::
  "(stock \<Rightarrow> jserror + jsval) \<Rightarrow> store \<Rightarrow> nat \<Rightarrow> store \<times> (jserror + nat)" where
  "filter_in_store f st a =
     (case array_filter f (stocks_of (st ! a)) of
        Inl e \<Rightarrow> (st, Inl e)
      | Inr ys \<Rightarrow> (case alloc st (Stocks ys) of (st', r) \<Rightarrow> (st', Inr r)))"

definition sort_in_place :: "stock sorter \<Rightarrow> (stock \<Rightarrow> stock \<Rightarrow> int) \<Rightarrow> store \<Rightarrow> nat \<Rightarrow> store" where
  "sort_in_place srt cmp st a = st[a := Stocks (srt cmp (stocks_of (st ! a)))]"

text \<open>
  \<open>if (active) result = result.filter(f)\<close>, unless an earlier statement has raised.
\<close>

definition filter_stage ::
  "bool \<Rightarrow> (stock \<Rightarrow> jserror + jsval) \<Rightarrow> store \<times> (jserror + nat) \<Rightarrow> store \<times> (jserror + nat)" where
  "filter_stage active f sr =
     (case sr of
        (st, Inl e) \<Rightarrow> (st, Inl e)
      | (st, Inr r) \<Rightarrow> if active then filter_in_store f st r else (st, Inr r))"

text \<open>
  \<open>filteredStocks\<close> on the store: \<open>result\<close> is a copy of the collection's array;
  the search, sector and signal filters, in this order and each only when its criterion
  is not empty, put a new array in \<open>result\<close>; then \<open>result\<close> is sorted in place.
\<close>

definition filteredStocks_store ::
  "stock sorter \<Rightarrow> store \<Rightarrow> nat \<Rightarrow> string \<Rightarrow> string \<Rightarrow> string \<Rightarrow> sort_config
     \<Rightarrow> store \<times> (jserror + nat)" where
  "filteredStocks_store srt st stocks searchTerm sectorFilter signalFilter sortConfig =
     (case alloc st (st ! stocks) of
        (st0, result) \<Rightarrow>
          (case filter_stage (signalFilter \<noteq> []) (signal_match signalFilter)
                  (filter_stage (sectorFilter \<noteq> []) (sector_match sectorFilter)
                    (filter_stage (searchTerm \<noteq> []) (search_match (toLowerCase searchTerm))
                      (st0, Inr result))) of
             (st3, Inl e) \<Rightarrow> (st3, Inl e)
           | (st3, Inr r3) \<Rightarrow> (sort_in_place srt (compare_stocks sortConfig) st3 r3, Inr r3)))"

text \<open>
  \<open>sectors\<close> on the store: \<open>map\<close>, \<open>filter\<close> and the spread of the \<open>Set\<close> each
  make an array, and the last one, \<open>uniqueSectors\<close>, is sorted in place.
\<close>

definition sectors_store :: "(rat \<Rightarrow> string) \<Rightarrow> store \<Rightarrow> nat \<Rightarrow> store \<times> nat" where
  "sectors_store nts st stocks =
     (case alloc st (Values (map (\<lambda>s. Get s ''sector'') (stocks_of (st ! stocks)))) of
        (st1, mapped) \<Rightarrow>
          (case alloc st1 (Values (filter ToBoolean (values_of (st1 ! mapped)))) of
             (st2, filtered) \<Rightarrow>
               (case alloc st2 (Values (Set_values (values_of (st2 ! filtered)))) of
                  (st3, uniqueSectors) \<Rightarrow>
                    (st3[uniqueSectors :=
                           Values (sort_default nts (values_of (st3 ! uniqueSectors)))],
                     uniqueSectors))))"

section \<open>What the specification says, in its own words\<close>

text \<open>
  The data model types \<open>symbol\<close> as a string and \<open>name\<close> and \<open>sector\<close> as strings
  that may be missing: a text field holds a string, \<open>null\<close> or nothing.
\<close>

fun is_text :: "jsval \<Rightarrow> bool" where
  "is_text Undefined = True"
| "is_text Null = True"
| "is_text (Str x) = True"
| "is_text v = False"

definition text_fields_ok :: "stock \<Rightarrow> bool" where
  "text_fields_ok s = (is_text (Get s ''symbol'') \<and> is_text (Get s ''name''))"

text \<open>
  The search predicate of the specification: the lower-cased term is a substring of the
  lower-cased symbol or of the lower-cased name. A missing field has no substring.
\<close>

fun text_contains :: "jsval \<Rightarrow> string \<Rightarrow> bool" where
  "text_contains (Str x) t = sublist (toLowerCase t) (toLowerCase x)"
| "text_contains v t = False"

definition search_accepts :: "string \<Rightarrow> stock \<Rightarrow> bool" where
  "search_accepts searchTerm s =
     (text_contains (Get s ''symbol'') searchTerm \<or> text_contains (Get s ''name'') searchTerm)"

text \<open>The conjunction of the active filters; an empty criterion is always true.\<close>

definition passes_filters :: "string \<Rightarrow> string \<Rightarrow> string \<Rightarrow> stock \<Rightarrow> bool" where
  "passes_filters searchTerm sectorFilter signalFilter s =
     ((searchTerm = [] \<or> search_accepts searchTerm s) \<and>
      (sectorFilter = [] \<or> Get s ''sector'' = Str sectorFilter) \<and>
      (signalFilter = [] \<or> Get s ''signal_type'' = Str signalFilter))"

text \<open>
  The facets of the specification: the non-empty sector strings of the collection, in
  lexicographic order, each once.
\<close>

fun sector_name :: "jsval \<Rightarrow> string list" where
  "sector_name (Str x) = (if x = [] then [] else [x])"
| "sector_name v = []"

definition facets_spec :: "stock list \<Rightarrow> string list" where
  "facets_spec stocks =
     sorted_list_of_set (set (concat (map (\<lambda>s. sector_name (Get s ''sector'')) stocks)))"

text \<open>The value a record is sorted by, and the record with a missing value written as 0.\<close>

definition sort_value :: "string \<Rightarrow> stock \<Rightarrow> jsval" where
  "sort_value k s = nullish (Get s k) (Num 0)"

definition missing_as_zero :: "string \<Rightarrow> stock \<Rightarrow> stock" where
  "missing_as_zero k s = (if Get s k = Null \<or> Get s k = Undefined then (k, Num 0) # s else s)"

text \<open>
  The same filter step on values, and what ties a store to the value computed so far:
  the store still begins with the arrays it began with, and the array in hand is a new
  one.
\<close>

definition filter_step ::
  "bool \<Rightarrow> (stock \<Rightarrow> jserror + jsval) \<Rightarrow> jserror + stock list \<Rightarrow> jserror + stock list" where
  "filter_step active f res =
     (case res of
        Inl e \<Rightarrow> Inl e
      | Inr ys \<Rightarrow> if active then array_filter f ys else Inr ys)"

definition holds_result :: "store \<Rightarrow> store \<times> (jserror + nat) \<Rightarrow> jserror + stock list \<Rightarrow> bool" where
  "holds_result st0 sr res =
     (case sr of
        (st, Inl e) \<Rightarrow> prefix st0 st \<and> res = Inl e
      | (st, Inr r) \<Rightarrow>
          prefix st0 st \<and> length st0 \<le> r \<and> r < length st \<and> res = Inr (stocks_of (st ! r)))"

section \<open>The records of the scenarios\<close>

definition stock_A :: stock where
  "stock_A = [(''symbol'', Str ''A''), (''sector'', Str ''IT''), (''momentum_score'', Num 80)]"

definition stock_B :: stock where
  "stock_B = [(''symbol'', Str ''B''), (''sector'', Str ''IT''), (''momentum_score'', Num 40)]"

definition stock_C :: stock where
  "stock_C = [(''symbol'', Str ''C''), (''sector'', Str ''Pharma''), (''momentum_score'', Null)]"

definition by_score :: "direction \<Rightarrow> sort_config" where
  "by_score dir = \<lparr>key = ''momentum_score'', direction = dir\<rparr>"



definition stock_no_score :: stock where
  "stock_no_score = [(''symbol'', Str ''T'')]"


section \<open>The screener's criteria and their handlers\<close>

text \<open>
  The three criteria are state of the component, each with its setter. The sector
  \<open>select\<close> calls \<open>setSectorFilter(e.target.value)\<close>, the signal \<open>select\<close> calls
  \<open>setSignalFilter(e.target.value)\<close>, and the Clear Filters button sets all three to
  the empty string. The first option of each \<open>select\<close> has the empty string as its
  value. The view is \<open>filteredStocks\<close> on the criteria of the state.
\<close>

record criteria =
  searchTerm :: string
  sectorFilter :: string
  signalFilter :: string

definition onSectorChange :: "criteria \<Rightarrow> string \<Rightarrow> criteria" where
  "onSectorChange st v = st\<lparr>sectorFilter := v\<rparr>"

definition onSignalChange :: "criteria \<Rightarrow> string \<Rightarrow> criteria" where
  "onSignalChange st v = st\<lparr>signalFilter := v\<rparr>"

definition clearFilters :: "criteria \<Rightarrow> criteria" where
  "clearFilters st = st\<lparr>searchTerm := [], sectorFilter := [], signalFilter := []\<rparr>"

definition screener_view ::
  "stock sorter \<Rightarrow> stock list \<Rightarrow> criteria \<Rightarrow> sort_config \<Rightarrow> jserror + stock list" where
  "screener_view srt stocks st sortConfig =
     filteredStocks srt stocks (searchTerm st) (sectorFilter st) (signalFilter st) sortConfig"

section \<open>Strings and filters\<close>

lemma str_includes_iff_sublist: "str_includes s t \<longleftrightarrow> sublist t s"
  by (induction s) (simp_all add: sublist_Cons_right)

lemma array_filter_no_throw:
  "\<forall>x \<in> set xs. f x = Inr (g x) \<Longrightarrow>
   array_filter f xs = Inr (filter (\<lambda>x. ToBoolean (g x)) xs)"
  by (induction xs) simp_all

lemma array_filter_sector:
  "array_filter (sector_match c) xs = Inr (filter (\<lambda>s. Get s ''sector'' = Str c) xs)"
  using array_filter_no_throw [of xs "sector_match c" "\<lambda>s. Bool (Get s ''sector'' = Str c)"]
  by (simp add: sector_match_def)

lemma array_filter_signal:
  "array_filter (signal_match c) xs = Inr (filter (\<lambda>s. Get s ''signal_type'' = Str c) xs)"
  using array_filter_no_throw [of xs "signal_match c" "\<lambda>s. Bool (Get s ''signal_type'' = Str c)"]
  by (simp add: signal_match_def)

lemma lowered_includes_text:
  "is_text v \<Longrightarrow> \<exists>w. lowered_includes v (toLowerCase q) = Inr w \<and> (ToBoolean w \<longleftrightarrow> text_contains v q)"
  by (cases v) (simp_all add: str_includes_iff_sublist)

lemma search_match_text:
  assumes "text_fields_ok s"
  shows "\<exists>w. search_match (toLowerCase q) s = Inr w \<and> (ToBoolean w \<longleftrightarrow> search_accepts q s)"
proof -
  from assms have sy: "is_text (Get s ''symbol'')" and nm: "is_text (Get s ''name'')"
    by (simp_all add: text_fields_ok_def)
  from lowered_includes_text [OF sy, of q] obtain w1 where
    w1: "lowered_includes (Get s ''symbol'') (toLowerCase q) = Inr w1"
        "ToBoolean w1 \<longleftrightarrow> text_contains (Get s ''symbol'') q"
    by blast
  from lowered_includes_text [OF nm, of q] obtain w2 where
    w2: "lowered_includes (Get s ''name'') (toLowerCase q) = Inr w2"
        "ToBoolean w2 \<longleftrightarrow> text_contains (Get s ''name'') q"
    by blast
  show ?thesis
  proof (cases "ToBoolean w1")
    case True
    with w1 show ?thesis by (simp add: search_match_def search_accepts_def)
  next
    case False
    with w1 w2 show ?thesis by (simp add: search_match_def search_accepts_def)
  qed
qed

lemma array_filter_search:
  "\<forall>s \<in> set xs. text_fields_ok s \<Longrightarrow>
   array_filter (search_match (toLowerCase q)) xs = Inr (filter (search_accepts q) xs)"
proof (induction xs)
  case Nil
  show ?case by simp
next
  case (Cons s xs)
  then have "text_fields_ok s" by simp
  from search_match_text [OF this, of q] obtain w where
    "search_match (toLowerCase q) s = Inr w" "ToBoolean w \<longleftrightarrow> search_accepts q s"
    by blast
  with Cons show ?case by simp
qed

text \<open>The three filters, run one after the other, keep the records that pass all three.\<close>

lemma filteredStocks_eq:
  assumes "q = [] \<or> (\<forall>s \<in> set xs. text_fields_ok s)"
  shows "filteredStocks srt xs q c g cfg =
           Inr (srt (compare_stocks cfg) (filter (passes_filters q c g) xs))"
proof -
  have search: "(if q \<noteq> [] then array_filter (search_match (toLowerCase q)) xs else Inr xs) =
                  Inr (filter (\<lambda>s. q = [] \<or> search_accepts q s) xs)"
    using assms by (cases "q = []") (simp_all add: array_filter_search)
  have conj: "filter (\<lambda>s. g = [] \<or> Get s ''signal_type'' = Str g)
                (filter (\<lambda>s. c = [] \<or> Get s ''sector'' = Str c)
                  (filter (\<lambda>s. q = [] \<or> search_accepts q s) xs)) =
              filter (passes_filters q c g) xs"
    by (auto simp: passes_filters_def intro: filter_cong)
  have "filteredStocks srt xs q c g cfg =
          Inr (srt (compare_stocks cfg)
            (filter (\<lambda>s. g = [] \<or> Get s ''signal_type'' = Str g)
              (filter (\<lambda>s. c = [] \<or> Get s ''sector'' = Str c)
                (filter (\<lambda>s. q = [] \<or> search_accepts q s) xs))))"
    unfolding filteredStocks_def search
    by (simp add: array_filter_sector array_filter_signal)
  with conj show ?thesis by simp
qed

section \<open>Sorting engines\<close>

lemma mset_insert_by: "mset (insert_by cmp x ys) = add_mset x (mset ys)"
  by (induction ys) simp_all

lemma mset_insertion_sort: "mset (insertion_sort cmp xs) = mset xs"
  by (induction xs) (simp_all add: insertion_sort_def mset_insert_by)

lemma set_insert_by: "set (insert_by cmp x ys) = insert x (set ys)"
  by (induction ys) auto

lemma orders_strictly_trans:
  "orders_strictly cmp xs \<Longrightarrow> a \<in> set xs \<Longrightarrow> b \<in> set xs \<Longrightarrow> c \<in> set xs \<Longrightarrow>
   cmp a b < 0 \<Longrightarrow> cmp b c < 0 \<Longrightarrow> cmp a c < 0"
  unfolding orders_strictly_def by blast

lemma orders_strictly_pair:
  assumes "orders_strictly cmp xs" and "a \<in> set xs" and "b \<in> set xs" and "a \<noteq> b"
  shows "cmp a b \<noteq> 0" and "cmp a b < 0 \<longleftrightarrow> 0 < cmp b a"
proof -
  from assms(1)
  have all: "\<forall>x \<in> set xs. \<forall>y \<in> set xs. x \<noteq> y \<longrightarrow> cmp x y \<noteq> 0 \<and> (cmp x y < 0 \<longleftrightarrow> 0 < cmp y x)"
    unfolding orders_strictly_def by (elim conjE)
  from bspec [OF bspec [OF all assms(2)] assms(3)] assms(4)
  show "cmp a b \<noteq> 0" and "cmp a b < 0 \<longleftrightarrow> 0 < cmp b a" by simp_all
qed

lemma orders_strictly_total:
  assumes "orders_strictly cmp xs" and "a \<in> set xs" and "b \<in> set xs" and "a \<noteq> b"
    and "\<not> cmp a b < 0"
  shows "cmp b a < 0"
proof -
  from assms(4) have "b \<noteq> a" by simp
  from orders_strictly_pair [OF assms(1,2,3,4)] orders_strictly_pair(2) [OF assms(1,3,2) this]
  have "cmp a b \<noteq> 0" and "cmp b a < 0 \<longleftrightarrow> 0 < cmp a b" by simp_all
  with assms(5) show ?thesis by linarith
qed

lemma orders_strictly_asym:
  assumes "orders_strictly cmp xs" and "a \<in> set xs" and "b \<in> set xs" and "a \<noteq> b"
    and "cmp a b < 0"
  shows "\<not> cmp b a < 0"
  using orders_strictly_pair(2) [OF assms(1-4)] assms(5) by linarith

lemma orders_strictly_same_elements:
  "set xs = set ys \<Longrightarrow> distinct xs = distinct ys \<Longrightarrow>
   orders_strictly cmp xs = orders_strictly cmp ys"
  by (simp add: orders_strictly_def)

lemma orders_strictly_distinct: "orders_strictly cmp xs \<Longrightarrow> distinct xs"
  unfolding orders_strictly_def by (elim conjE)

lemma sorted_insert_by:
  assumes "sorted_wrt (\<lambda>a b. cmp a b < 0) ys"
    and "\<And>y. y \<in> set ys \<Longrightarrow> \<not> cmp x y < 0 \<Longrightarrow> cmp y x < 0"
    and "\<And>y z. y \<in> set ys \<Longrightarrow> z \<in> set ys \<Longrightarrow> cmp x y < 0 \<Longrightarrow> cmp y z < 0 \<Longrightarrow> cmp x z < 0"
  shows "sorted_wrt (\<lambda>a b. cmp a b < 0) (insert_by cmp x ys)"
  using assms
proof (induction ys)
  case Nil
  show ?case by simp
next
  case (Cons y ys)
  from Cons.prems(1) have below: "\<forall>z \<in> set ys. cmp y z < 0"
    and sorted: "sorted_wrt (\<lambda>a b. cmp a b < 0) ys"
    by simp_all
  show ?case
  proof (cases "cmp x y < 0")
    case True
    have "\<forall>z \<in> set ys. cmp x z < 0"
    proof
      fix z
      assume z: "z \<in> set ys"
      with below have "cmp y z < 0" by simp
      with True z Cons.prems(3) [of y z] show "cmp x z < 0" by simp
    qed
    with True Cons.prems(1) show ?thesis by simp
  next
    case False
    with Cons.prems(2) [of y] have yx: "cmp y x < 0" by simp
    have "sorted_wrt (\<lambda>a b. cmp a b < 0) (insert_by cmp x ys)"
    proof (rule Cons.IH [OF sorted])
      fix u
      assume "u \<in> set ys" and "\<not> cmp x u < 0"
      with Cons.prems(2) [of u] show "cmp u x < 0" by simp
    next
      fix u v
      assume "u \<in> set ys" and "v \<in> set ys" and "cmp x u < 0" and "cmp u v < 0"
      with Cons.prems(3) [of u v] show "cmp x v < 0" by simp
    qed
    with False yx below show ?thesis by (simp add: set_insert_by)
  qed
qed

lemma sorted_insertion_sort_within:
  assumes total: "\<And>a b. a \<in> S \<Longrightarrow> b \<in> S \<Longrightarrow> a \<noteq> b \<Longrightarrow> \<not> cmp a b < 0 \<Longrightarrow> cmp b a < 0"
    and trans: "\<And>a b c. a \<in> S \<Longrightarrow> b \<in> S \<Longrightarrow> c \<in> S \<Longrightarrow> cmp a b < 0 \<Longrightarrow> cmp b c < 0 \<Longrightarrow> cmp a c < 0"
  shows "distinct xs \<Longrightarrow> set xs \<subseteq> S \<Longrightarrow>
         sorted_wrt (\<lambda>a b. cmp a b < 0) (insertion_sort cmp xs)"
proof (induction xs)
  case Nil
  show ?case by (simp add: insertion_sort_def)
next
  case (Cons x xs)
  let ?ys = "insertion_sort cmp xs"
  have set_ys: "set ?ys = set xs"
    using mset_insertion_sort [of cmp xs] by (metis set_mset_mset)
  from Cons.prems have fresh: "x \<notin> set xs" and x_in: "x \<in> S" and sub: "set xs \<subseteq> S"
    by simp_all
  from Cons have sorted: "sorted_wrt (\<lambda>a b. cmp a b < 0) ?ys" by simp
  have "sorted_wrt (\<lambda>a b. cmp a b < 0) (insert_by cmp x ?ys)"
  proof (rule sorted_insert_by [OF sorted])
    fix y
    assume y: "y \<in> set ?ys" and n: "\<not> cmp x y < 0"
    from y set_ys fresh sub have "y \<in> S" and "x \<noteq> y" by auto
    with total [of x y] x_in n show "cmp y x < 0" by simp
  next
    fix y z
    assume "y \<in> set ?ys" and "z \<in> set ?ys" and lt: "cmp x y < 0" "cmp y z < 0"
    with set_ys sub have "y \<in> S" and "z \<in> S" by auto
    with trans [of x y z] x_in lt show "cmp x z < 0" by simp
  qed
  then show ?case by (simp add: insertion_sort_def)
qed

lemma sorted_insertion_sort:
  assumes "orders_strictly cmp xs"
  shows "sorted_wrt (\<lambda>a b. cmp a b < 0) (insertion_sort cmp xs)"
proof (rule sorted_insertion_sort_within [where S = "set xs"])
  show "distinct xs" using assms by (rule orders_strictly_distinct)
  show "set xs \<subseteq> set xs" by simp
next
  fix a b
  assume "a \<in> set xs" and "b \<in> set xs" and "a \<noteq> b" and "\<not> cmp a b < 0"
  then show "cmp b a < 0" by (rule orders_strictly_total [OF assms])
next
  fix a b c
  assume "a \<in> set xs" and "b \<in> set xs" and "c \<in> set xs" and "cmp a b < 0" and "cmp b c < 0"
  then show "cmp a c < 0" by (rule orders_strictly_trans [OF assms])
qed

lemma engine_sort_insertion_sort: "engine_sort insertion_sort"
  unfolding engine_sort_def by (simp add: mset_insertion_sort sorted_insertion_sort)

lemma engine_sort_insertion_sort_rev: "engine_sort insertion_sort_rev"
proof -
  have "sorted_wrt (\<lambda>a b. cmp a b < 0) (insertion_sort cmp (rev xs))"
    if "orders_strictly cmp xs" for cmp :: "stock \<Rightarrow> stock \<Rightarrow> int" and xs
  proof -
    from that orders_strictly_same_elements [of "rev xs" xs cmp]
    have "orders_strictly cmp (rev xs)" by simp
    then show ?thesis by (rule sorted_insertion_sort)
  qed
  then show ?thesis
    unfolding engine_sort_def by (simp add: insertion_sort_rev_def mset_insertion_sort)
qed

lemma engine_sort_mset: "engine_sort srt \<Longrightarrow> mset (srt cmp xs) = mset xs"
  by (simp add: engine_sort_def)

text \<open>Two lists with the same elements that both follow the comparator are the same list.\<close>

lemma sorted_wrt_unique:
  assumes "sorted_wrt P xs" and "sorted_wrt P ys" and "mset xs = mset ys"
    and "\<And>a b. a \<in> set xs \<Longrightarrow> b \<in> set xs \<Longrightarrow> a \<noteq> b \<Longrightarrow> P a b \<Longrightarrow> \<not> P b a"
  shows "xs = ys"
  using assms
proof (induction xs arbitrary: ys)
  case Nil
  then show ?case by simp
next
  case (Cons x xs)
  from Cons.prems(3) obtain y ys' where ys: "ys = y # ys'" by (cases ys) auto
  from Cons.prems(3) have sets: "set (x # xs) = set ys" by (metis set_mset_mset)
  have head: "x = y"
  proof (rule ccontr)
    assume neq: "x \<noteq> y"
    with sets ys have x_in: "x \<in> set ys'" and y_in: "y \<in> set xs" by auto
    from Cons.prems(2) ys x_in have "P y x" by simp
    moreover from Cons.prems(1) y_in have "P x y" by simp
    ultimately show False using Cons.prems(4) [of x y] neq y_in by simp
  qed
  from Cons.prems(3) ys head have tails: "mset xs = mset ys'" by simp
  from Cons.prems(1) have s1: "sorted_wrt P xs" by simp
  from Cons.prems(2) ys have s2: "sorted_wrt P ys'" by simp
  have "xs = ys'"
  proof (rule Cons.IH [OF s1 s2 tails])
    fix a b
    assume "a \<in> set xs" and "b \<in> set xs" and "a \<noteq> b" and "P a b"
    with Cons.prems(4) [of a b] show "\<not> P b a" by simp
  qed
  with ys head show ?case by simp
qed

lemma engine_sort_result:
  assumes eng: "engine_sort srt"
    and ord: "orders_strictly cmp ys"
    and sorted: "sorted_wrt (\<lambda>a b. cmp a b < 0) ys"
    and same: "mset xs = mset ys"
  shows "srt cmp xs = ys"
proof -
  from same have sets: "set xs = set ys" by (metis set_mset_mset)
  from same have "distinct xs \<longleftrightarrow> distinct ys" by (rule mset_eq_imp_distinct_iff)
  with ord sets have ord_xs: "orders_strictly cmp xs"
    using orders_strictly_same_elements [of xs ys cmp] by simp
  with eng have s1: "sorted_wrt (\<lambda>a b. cmp a b < 0) (srt cmp xs)"
    by (simp add: engine_sort_def)
  from eng same have m: "mset ys = mset (srt cmp xs)" by (simp add: engine_sort_def)
  have "ys = srt cmp xs"
  proof (rule sorted_wrt_unique [OF sorted s1 m])
    fix a b
    assume "a \<in> set ys" and "b \<in> set ys" and "a \<noteq> b" and "cmp a b < 0"
    with orders_strictly_asym [OF ord, of a b] show "\<not> cmp b a < 0" by simp
  qed
  then show ?thesis by simp
qed

section \<open>The comparator\<close>

lemma compare_stocks_sort_value:
  "compare_stocks cfg a b =
     (if direction cfg = Asc
      then (if js_gt (sort_value (key cfg) a) (sort_value (key cfg) b) then 1 else - 1)
      else (if js_lt (sort_value (key cfg) a) (sort_value (key cfg) b) then 1 else - 1))"
  by (simp add: compare_stocks_def sort_value_def Let_def)

lemma Get_Cons: "Get ((k, v) # s) j = (if j = k then v else Get s j)"
  by (simp add: Get_def)

lemma sort_value_missing_as_zero: "sort_value k (missing_as_zero k s) = sort_value k s"
  by (auto simp: sort_value_def missing_as_zero_def Get_Cons)

lemma number_lessThan_irrefl: "number_lessThan x x \<noteq> Some True"
  by (cases x) simp_all

lemma number_lessThan_asym:
  "number_lessThan x y = Some True \<Longrightarrow> number_lessThan y x \<noteq> Some True"
  by (cases x; cases y) simp_all

lemma IsLessThan_irrefl: "IsLessThan v v \<noteq> Some True"
  by (cases v) (simp_all add: number_lessThan_irrefl)

lemma IsLessThan_asym: "IsLessThan v w = Some True \<Longrightarrow> IsLessThan w v \<noteq> Some True"
  by (cases v; cases w) (auto dest: number_lessThan_asym)

lemma compare_stocks_verdict: "compare_stocks cfg a b = 1 \<or> compare_stocks cfg a b = - 1"
  by (simp add: compare_stocks_sort_value)

lemma compare_stocks_tie:
  "sort_value (key cfg) a = sort_value (key cfg) b \<Longrightarrow> compare_stocks cfg a b = - 1"
  by (simp add: compare_stocks_sort_value js_lt_def js_gt_def IsLessThan_irrefl)

text \<open>The scenario: 80, 40 and a missing score are ordered strictly, downwards.\<close>

lemma scenario_ordered:
  "orders_strictly (compare_stocks (by_score Desc)) [stock_A, stock_B, stock_C]"
  "sorted_wrt (\<lambda>a b. compare_stocks (by_score Desc) a b < 0) [stock_A, stock_B, stock_C]"
  by (simp_all add: orders_strictly_def compare_stocks_def by_score_def
      stock_A_def stock_B_def stock_C_def Get_def js_lt_def js_gt_def)

lemma scenario_view:
  assumes "engine_sort srt" and "mset xs = mset [stock_A, stock_B, stock_C]"
  shows "filteredStocks srt xs [] [] [] (by_score Desc) = Inr [stock_A, stock_B, stock_C]"
proof -
  have "filteredStocks srt xs [] [] [] (by_score Desc) =
          Inr (srt (compare_stocks (by_score Desc)) xs)"
    by (simp add: filteredStocks_def)
  with engine_sort_result [OF assms(1) scenario_ordered assms(2)] show ?thesis by simp
qed

lemma scenario_facets: "sectors nts [stock_A, stock_B, stock_C] = [Str ''IT'', Str ''Pharma'']"
  by (simp add: sectors_def stock_A_def stock_B_def stock_C_def Get_def Set_values_def
      Set_add_def sort_default_def)

text \<open>
  C3. A record whose sort-key value is missing (\<open>null\<close>, or no field at all) is compared
  exactly as the same record with the value 0 in that field, on either side of the
  comparison, for every key and direction. In the scenario of the three records A (80,
  IT), B (40, IT) and C (\<open>null\<close>, Pharma), given in any order and sorted by score
  downwards, the view is A, B, C whatever engine sorts, and the facets are IT, Pharma.
\<close>

theorem missing_sort_key_counts_as_zero:
  "compare_stocks cfg (missing_as_zero (key cfg) a) b = compare_stocks cfg a b \<and>
   compare_stocks cfg a (missing_as_zero (key cfg) b) = compare_stocks cfg a b \<and>
   (Get a (key cfg) = Null \<or> Get a (key cfg) = Undefined \<longrightarrow>
      Get (missing_as_zero (key cfg) a) (key cfg) = Num 0) \<and>
   (engine_sort srt \<and> mset xs = mset [stock_A, stock_B, stock_C] \<longrightarrow>
      filteredStocks srt xs [] [] [] (by_score Desc) = Inr [stock_A, stock_B, stock_C]) \<and>
   sectors nts [stock_A, stock_B, stock_C] = [Str ''IT'', Str ''Pharma'']"
proof -
  have "compare_stocks cfg (missing_as_zero (key cfg) a) b = compare_stocks cfg a b"
    and "compare_stocks cfg a (missing_as_zero (key cfg) b) = compare_stocks cfg a b"
    by (simp_all add: compare_stocks_sort_value sort_value_missing_as_zero)
  moreover have "Get a (key cfg) = Null \<or> Get a (key cfg) = Undefined \<longrightarrow>
      Get (missing_as_zero (key cfg) a) (key cfg) = Num 0"
    by (simp add: missing_as_zero_def Get_Cons)
  ultimately show ?thesis
    using scenario_view [of srt xs] scenario_facets [of nts] by simp
qed

theorem missing_sort_key_counts_as_zero_witness:
  "compare_stocks (by_score Desc) ((''momentum_score'', Num 0) # stock_C) stock_B =
     compare_stocks (by_score Desc) stock_C stock_B \<and>
   filteredStocks insertion_sort [stock_C, stock_A, stock_B] [] [] [] (by_score Desc) =
     Inr [stock_A, stock_B, stock_C] \<and>
   sectors (\<lambda>q. []) [stock_A, stock_B, stock_C] = [Str ''IT'', Str ''Pharma'']"
proof -
  have missing: "missing_as_zero ''momentum_score'' stock_C = (''momentum_score'', Num 0) # stock_C"
    by (simp add: missing_as_zero_def stock_C_def Get_def)
  have same: "mset [stock_C, stock_A, stock_B] = mset [stock_A, stock_B, stock_C]"
    by simp
  have k: "key (by_score Desc) = ''momentum_score''"
    by (simp add: by_score_def)
  from missing_sort_key_counts_as_zero
    [of "by_score Desc" stock_C stock_B insertion_sort "[stock_C, stock_A, stock_B]" "\<lambda>q. []"]
    engine_sort_insertion_sort same
  show ?thesis unfolding k missing by simp
qed

text \<open>
  C5. The comparator never answers 0: its answer is 1 or -1 for every pair of records.
  For two records with equal key values (a missing value counting as 0) the answer is -1
  in the ascending and in the descending configuration alike, whichever record comes
  first, so the descending answer is not the negated ascending answer; for values that
  differ under \<open><\<close> or \<open>>\<close> it is. The comparator therefore leaves the order of
  equal-keyed records to the engine: of two engines that both reorder only and follow
  every strict comparator, one gives two such records in the order received and the
  other in the opposite order, in either direction.
\<close>

theorem comparator_never_reports_equality:
  "compare_stocks cfg a b \<noteq> 0 \<and>
   (compare_stocks cfg a b = 1 \<or> compare_stocks cfg a b = - 1) \<and>
   (sort_value k a = sort_value k b \<longrightarrow>
      compare_stocks \<lparr>key = k, direction = Asc\<rparr> a b = - 1 \<and>
      compare_stocks \<lparr>key = k, direction = Desc\<rparr> a b = - 1 \<and>
      compare_stocks \<lparr>key = k, direction = Asc\<rparr> b a = - 1 \<and>
      compare_stocks \<lparr>key = k, direction = Desc\<rparr> b a = - 1 \<and>
      compare_stocks \<lparr>key = k, direction = Desc\<rparr> a b \<noteq>
        - compare_stocks \<lparr>key = k, direction = Asc\<rparr> a b) \<and>
   (js_lt (sort_value k a) (sort_value k b) \<or> js_gt (sort_value k a) (sort_value k b) \<longrightarrow>
      compare_stocks \<lparr>key = k, direction = Desc\<rparr> a b =
        - compare_stocks \<lparr>key = k, direction = Asc\<rparr> a b) \<and>
   engine_sort insertion_sort \<and> engine_sort insertion_sort_rev \<and>
   (sort_value k a = sort_value k b \<longrightarrow>
      insertion_sort (compare_stocks \<lparr>key = k, direction = d\<rparr>) [a, b] = [a, b] \<and>
      insertion_sort_rev (compare_stocks \<lparr>key = k, direction = d\<rparr>) [a, b] = [b, a])"
proof -
  have verdict: "compare_stocks cfg a b = 1 \<or> compare_stocks cfg a b = - 1"
    by (rule compare_stocks_verdict)
  then have nonzero: "compare_stocks cfg a b \<noteq> 0" by auto
  have tie: "compare_stocks \<lparr>key = k, direction = d\<rparr> a b = - 1"
       "compare_stocks \<lparr>key = k, direction = d\<rparr> b a = - 1"
    if "sort_value k a = sort_value k b" for d
    using that compare_stocks_tie [of "\<lparr>key = k, direction = d\<rparr>" a b]
      compare_stocks_tie [of "\<lparr>key = k, direction = d\<rparr>" b a]
    by simp_all
  have inverse: "compare_stocks \<lparr>key = k, direction = Desc\<rparr> a b =
        - compare_stocks \<lparr>key = k, direction = Asc\<rparr> a b"
    if "js_lt (sort_value k a) (sort_value k b) \<or> js_gt (sort_value k a) (sort_value k b)"
    using that IsLessThan_asym [of "sort_value k a" "sort_value k b"]
      IsLessThan_asym [of "sort_value k b" "sort_value k a"]
    by (auto simp: compare_stocks_sort_value js_lt_def js_gt_def)
  have engines: "insertion_sort (compare_stocks \<lparr>key = k, direction = d\<rparr>) [a, b] = [a, b]"
       "insertion_sort_rev (compare_stocks \<lparr>key = k, direction = d\<rparr>) [a, b] = [b, a]"
    if "sort_value k a = sort_value k b"
    using tie [OF that, of d] by (simp_all add: insertion_sort_rev_def insertion_sort_def)
  from verdict nonzero tie inverse engines engine_sort_insertion_sort
    engine_sort_insertion_sort_rev
  show ?thesis by simp
qed

theorem comparator_never_reports_equality_witness:
  "compare_stocks (by_score Asc) stock_C stock_no_score = - 1 \<and>
   compare_stocks (by_score Desc) stock_C stock_no_score = - 1 \<and>
   compare_stocks (by_score Asc) stock_no_score stock_C = - 1 \<and>
   compare_stocks (by_score Desc) stock_no_score stock_C = - 1 \<and>
   compare_stocks (by_score Desc) stock_A stock_B = - compare_stocks (by_score Asc) stock_A stock_B \<and>
   insertion_sort (compare_stocks (by_score Desc)) [stock_C, stock_no_score] =
     [stock_C, stock_no_score] \<and>
   insertion_sort_rev (compare_stocks (by_score Desc)) [stock_C, stock_no_score] =
     [stock_no_score, stock_C]"
proof -
  have tie: "sort_value ''momentum_score'' stock_C = sort_value ''momentum_score'' stock_no_score"
    by (simp add: sort_value_def stock_C_def stock_no_score_def Get_def)
  have differ: "js_gt (sort_value ''momentum_score'' stock_A) (sort_value ''momentum_score'' stock_B)"
    by (simp add: sort_value_def stock_A_def stock_B_def Get_def js_gt_def)
  from comparator_never_reports_equality
      [of "by_score Desc" stock_C stock_no_score "''momentum_score''" Desc]
    comparator_never_reports_equality
      [of "by_score Desc" stock_A stock_B "''momentum_score''" Desc]
    tie differ
  show ?thesis by (simp add: by_score_def)
qed

section \<open>The view\<close>

lemma scenario_text_fields:
  "text_fields_ok stock_A" "text_fields_ok stock_B" "text_fields_ok stock_C"
  by (simp_all add: text_fields_ok_def stock_A_def stock_B_def stock_C_def Get_def)

lemma scenario_search_b:
  "\<not> search_accepts ''b'' stock_A" "search_accepts ''b'' stock_B" "\<not> search_accepts ''b'' stock_C"
  by code_simp+

lemma scenario_sector_IT:
  "Get stock_A ''sector'' = Str ''IT''" "Get stock_B ''sector'' = Str ''IT''"
  "Get stock_C ''sector'' \<noteq> Str ''IT''"
  by (simp_all add: stock_A_def stock_B_def stock_C_def Get_def)

lemma view_of_one:
  assumes "engine_sort srt"
  shows "srt cmp [x] = [x]"
proof -
  from assms have "mset (srt cmp [x]) = mset [x]" by (rule engine_sort_mset)
  then show ?thesis by simp
qed

text \<open>
  A \<open>symbol\<close> that is neither a string nor missing has no \<open>toLowerCase\<close>: with a
  search term the filter raises, and there is no view.
\<close>

lemma search_raises_on_a_number:
  "filteredStocks srt [[(''symbol'', Num 5)]] ''a'' c g cfg = Inl TypeError"
  by (simp add: filteredStocks_def search_match_def Get_def)

text \<open>
  C1. Whatever the engine that sorts, and for every collection whose \<open>symbol\<close> and
  \<open>name\<close> fields are strings or missing (as the data model types them; with an empty
  search term nothing is asked of them), the screener returns a view, and the view holds
  exactly the records of the collection that pass every active filter, each as often as
  the collection holds it; an empty criterion passes every record. With all three
  criteria empty the view is a reordering of the whole collection.
\<close>

theorem view_holds_exactly_the_passing_records:
  "(engine_sort srt \<and> (q = [] \<or> (\<forall>s \<in> set xs. text_fields_ok s)) \<longrightarrow>
      (\<exists>view. filteredStocks srt xs q c g cfg = Inr view \<and>
              mset view = filter_mset (passes_filters q c g) (mset xs))) \<and>
   (engine_sort srt \<longrightarrow>
      (\<exists>view. filteredStocks srt xs [] [] [] cfg = Inr view \<and> mset view = mset xs))"
proof -
  have filtered: "\<exists>view. filteredStocks srt xs q c g cfg = Inr view \<and>
              mset view = filter_mset (passes_filters q c g) (mset xs)"
    if eng: "engine_sort srt" and typed: "q = [] \<or> (\<forall>s \<in> set xs. text_fields_ok s)"
    using filteredStocks_eq [OF typed, of srt c g cfg] engine_sort_mset [OF eng]
    by simp
  have everything: "\<exists>view. filteredStocks srt xs [] [] [] cfg = Inr view \<and> mset view = mset xs"
    if eng: "engine_sort srt"
    using filteredStocks_eq [of "[]" xs srt "[]" "[]" cfg] engine_sort_mset [OF eng]
    by (simp add: passes_filters_def)
  from filtered everything show ?thesis by blast
qed

theorem view_holds_exactly_the_passing_records_witness:
  "(\<exists>view. filteredStocks insertion_sort [stock_A, stock_B, stock_C] ''b'' ''IT'' [] (by_score Desc)
            = Inr view \<and> mset view = {#stock_B#}) \<and>
   (\<exists>view. filteredStocks insertion_sort [stock_A, stock_B, stock_C] [] [] [] (by_score Desc)
            = Inr view \<and> mset view = {#stock_A, stock_B, stock_C#})"
proof -
  have passing: "filter_mset (passes_filters ''b'' ''IT'' []) (mset [stock_A, stock_B, stock_C])
                   = {#stock_B#}"
    by (simp add: passes_filters_def scenario_search_b scenario_sector_IT)
  have typed: "\<forall>s \<in> set [stock_A, stock_B, stock_C]. text_fields_ok s"
    by (simp add: scenario_text_fields)
  from view_holds_exactly_the_passing_records
      [of insertion_sort "''b''" "[stock_A, stock_B, stock_C]" "''IT''" "[]" "by_score Desc"]
    engine_sort_insertion_sort typed passing
  show ?thesis by (simp add: add_mset_commute)
qed

text \<open>
  C8. For a non-empty search term and a record whose \<open>symbol\<close> and \<open>name\<close> are
  strings or missing, the search callback answers, and its answer is truthy exactly when
  the lower-cased term is a substring of the lower-cased symbol or of the lower-cased
  name; the view of a search alone holds exactly the records so accepted. An empty term
  filters nothing. In the scenario of the three records the term \<open>b\<close> gives the view
  that holds record B only.
\<close>

theorem search_is_substring_ignoring_case:
  "(q \<noteq> [] \<and> text_fields_ok s \<longrightarrow>
      (\<exists>w. search_match (toLowerCase q) s = Inr w \<and> (ToBoolean w \<longleftrightarrow> search_accepts q s))) \<and>
   (Get s ''symbol'' = Str x \<longrightarrow>
      (text_contains (Get s ''symbol'') q \<longleftrightarrow> (\<exists>ps ss. toLowerCase x = ps @ toLowerCase q @ ss))) \<and>
   (Get s ''name'' = Str y \<longrightarrow>
      (text_contains (Get s ''name'') q \<longleftrightarrow> (\<exists>ps ss. toLowerCase y = ps @ toLowerCase q @ ss))) \<and>
   (engine_sort srt \<and> q \<noteq> [] \<and> (\<forall>r \<in> set xs. text_fields_ok r) \<longrightarrow>
      (\<exists>view. filteredStocks srt xs q [] [] cfg = Inr view \<and>
              mset view = filter_mset (search_accepts q) (mset xs))) \<and>
   (engine_sort srt \<longrightarrow>
      (\<exists>view. filteredStocks srt xs [] [] [] cfg = Inr view \<and> mset view = mset xs)) \<and>
   (engine_sort srt \<longrightarrow>
      filteredStocks srt [stock_A, stock_B, stock_C] ''b'' [] [] cfg = Inr [stock_B])"
proof -
  have callback: "\<exists>w. search_match (toLowerCase q) s = Inr w \<and> (ToBoolean w \<longleftrightarrow> search_accepts q s)"
    if "text_fields_ok s"
    using that by (rule search_match_text)
  have sym: "text_contains (Get s ''symbol'') q \<longleftrightarrow> (\<exists>ps ss. toLowerCase x = ps @ toLowerCase q @ ss)"
    if "Get s ''symbol'' = Str x"
    using that by (simp add: sublist_def)
  have nam: "text_contains (Get s ''name'') q \<longleftrightarrow> (\<exists>ps ss. toLowerCase y = ps @ toLowerCase q @ ss)"
    if "Get s ''name'' = Str y"
    using that by (simp add: sublist_def)
  have searched: "\<exists>view. filteredStocks srt xs q [] [] cfg = Inr view \<and>
              mset view = filter_mset (search_accepts q) (mset xs)"
    if eng: "engine_sort srt" and "q \<noteq> []" and typed: "\<forall>r \<in> set xs. text_fields_ok r"
  proof -
    from typed have "q = [] \<or> (\<forall>r \<in> set xs. text_fields_ok r)" by simp
    from filteredStocks_eq [OF this, of srt "[]" "[]" cfg] engine_sort_mset [OF eng] \<open>q \<noteq> []\<close>
    show ?thesis by (simp add: passes_filters_def)
  qed
  have everything: "\<exists>view. filteredStocks srt xs [] [] [] cfg = Inr view \<and> mset view = mset xs"
    if eng: "engine_sort srt"
    using filteredStocks_eq [of "[]" xs srt "[]" "[]" cfg] engine_sort_mset [OF eng]
    by (simp add: passes_filters_def)
  have only_B: "filteredStocks srt [stock_A, stock_B, stock_C] ''b'' [] [] cfg = Inr [stock_B]"
    if eng: "engine_sort srt"
  proof -
    have "''b'' = [] \<or> (\<forall>r \<in> set [stock_A, stock_B, stock_C]. text_fields_ok r)"
      by (simp add: scenario_text_fields)
    from filteredStocks_eq [OF this, of srt "[]" "[]" cfg]
    show ?thesis
      by (simp add: passes_filters_def scenario_search_b view_of_one [OF eng])
  qed
  from callback sym nam searched everything only_B show ?thesis by blast
qed

theorem search_is_substring_ignoring_case_witness:
  "(\<exists>w. search_match (toLowerCase ''Ph'') stock_C = Inr w \<and> \<not> ToBoolean w) \<and>
   (\<exists>w. search_match (toLowerCase ''b'') stock_B = Inr w \<and> ToBoolean w) \<and>
   filteredStocks insertion_sort [stock_A, stock_B, stock_C] ''b'' [] [] (by_score Asc) = Inr [stock_B]"
proof -
  have no: "\<not> search_accepts ''Ph'' stock_C" by code_simp
  from search_is_substring_ignoring_case
      [of "''Ph''" stock_C "''C''" "[]" insertion_sort "[]" "by_score Asc"]
    search_is_substring_ignoring_case
      [of "''b''" stock_B "''B''" "[]" insertion_sort "[]" "by_score Asc"]
    engine_sort_insertion_sort scenario_text_fields scenario_search_b no
  show ?thesis by simp
qed

section \<open>A sort key that is a string\<close>














section \<open>Choosing a filter\<close>

lemma screener_view_of_sector:
  assumes "engine_sort srt" and "v \<noteq> []" and "searchTerm st = []" and "signalFilter st = []"
  shows "\<exists>view. screener_view srt ys (onSectorChange st v) cfg = Inr view \<and>
           mset view = filter_mset (\<lambda>s. Get s ''sector'' = Str v) (mset ys)"
  using assms filteredStocks_eq [of "[]" ys srt v "[]" cfg] engine_sort_mset [OF assms(1)]
  by (simp add: screener_view_def onSectorChange_def passes_filters_def)

lemma screener_view_of_signal:
  assumes "engine_sort srt" and "v \<noteq> []" and "searchTerm st = []" and "sectorFilter st = []"
  shows "\<exists>view. screener_view srt ys (onSignalChange st v) cfg = Inr view \<and>
           mset view = filter_mset (\<lambda>s. Get s ''signal_type'' = Str v) (mset ys)"
  using assms filteredStocks_eq [of "[]" ys srt "[]" v cfg] engine_sort_mset [OF assms(1)]
  by (simp add: screener_view_def onSignalChange_def passes_filters_def)

lemma screener_view_cleared:
  assumes "engine_sort srt"
  shows "\<exists>view. screener_view srt ys (clearFilters st) cfg = Inr view \<and> mset view = mset ys"
  using filteredStocks_eq [of "[]" ys srt "[]" "[]" cfg] engine_sort_mset [OF assms]
  by (simp add: screener_view_def clearFilters_def passes_filters_def)

text \<open>
  C6, as the claim states it, fails in the screener. With the sector filter at \<open>IT\<close>,
  choosing \<open>IT\<close> again leaves the filter at \<open>IT\<close>, and the view stays the filtered one,
  A and B, not the unfiltered A, B, C.
\<close>

theorem sector_choice_is_no_toggle_counterexample:
  "sectorFilter (onSectorChange \<lparr>searchTerm = [], sectorFilter = ''IT'', signalFilter = []\<rparr> ''IT'')
     = ''IT'' \<and>
   screener_view insertion_sort [stock_A, stock_B, stock_C]
       (onSectorChange \<lparr>searchTerm = [], sectorFilter = ''IT'', signalFilter = []\<rparr> ''IT'')
       (by_score Desc) = Inr [stock_A, stock_B] \<and>
   screener_view insertion_sort [stock_A, stock_B, stock_C]
       \<lparr>searchTerm = [], sectorFilter = [], signalFilter = []\<rparr> (by_score Desc) =
     Inr [stock_A, stock_B, stock_C]"
  by code_simp

text \<open>
  C6, amended. In the signals view, a click on the card of the signal type that is the
  active filter clears the filter, and the list shown is again the whole list of
  signals in the order received; a click on another card makes that type the filter,
  and the list shown is then the signals of that type. In the screener, choosing a
  value in the sector or in the signal \<open>select\<close> makes that value the filter and
  leaves the other criteria as they were: choosing the value that is already the
  filter leaves the criteria and the view as they were, the filter becomes empty
  exactly when the empty value is chosen, and with the other criteria empty the view of
  a chosen value that is not empty holds exactly the records with that value. Clear
  Filters empties the three criteria, and the view is then a reordering of the whole
  collection.
\<close>

theorem signal_card_toggles_sector_choice_sets:
  "card_click t t = [] \<and>
   (f \<noteq> t \<longrightarrow> card_click f t = t) \<and>
   filteredSignals (card_click t t) (Some \<lparr>signals = Some xs\<rparr>) = Some xs \<and>
   (t \<noteq> [] \<and> f \<noteq> t \<longrightarrow>
      filteredSignals (card_click f t) (Some \<lparr>signals = Some xs\<rparr>) =
        Some (filter (\<lambda>s. Get s ''signal_type'' = Str t) xs)) \<and>
   sectorFilter (onSectorChange st v) = v \<and>
   searchTerm (onSectorChange st v) = searchTerm st \<and>
   signalFilter (onSectorChange st v) = signalFilter st \<and>
   signalFilter (onSignalChange st v) = v \<and>
   searchTerm (onSignalChange st v) = searchTerm st \<and>
   sectorFilter (onSignalChange st v) = sectorFilter st \<and>
   (sectorFilter st = v \<longrightarrow>
      onSectorChange st v = st \<and>
      screener_view srt ys (onSectorChange st v) cfg = screener_view srt ys st cfg) \<and>
   (signalFilter st = v \<longrightarrow>
      onSignalChange st v = st \<and>
      screener_view srt ys (onSignalChange st v) cfg = screener_view srt ys st cfg) \<and>
   (sectorFilter (onSectorChange st v) = [] \<longleftrightarrow> v = []) \<and>
   (signalFilter (onSignalChange st v) = [] \<longleftrightarrow> v = []) \<and>
   (engine_sort srt \<and> v \<noteq> [] \<and> searchTerm st = [] \<and> signalFilter st = [] \<longrightarrow>
      (\<exists>view. screener_view srt ys (onSectorChange st v) cfg = Inr view \<and>
              mset view = filter_mset (\<lambda>s. Get s ''sector'' = Str v) (mset ys))) \<and>
   (engine_sort srt \<and> v \<noteq> [] \<and> searchTerm st = [] \<and> sectorFilter st = [] \<longrightarrow>
      (\<exists>view. screener_view srt ys (onSignalChange st v) cfg = Inr view \<and>
              mset view = filter_mset (\<lambda>s. Get s ''signal_type'' = Str v) (mset ys))) \<and>
   clearFilters st = \<lparr>searchTerm = [], sectorFilter = [], signalFilter = []\<rparr> \<and>
   (engine_sort srt \<longrightarrow>
      (\<exists>view. screener_view srt ys (clearFilters st) cfg = Inr view \<and> mset view = mset ys))"
proof -
  have cards: "card_click t t = []" "f \<noteq> t \<longrightarrow> card_click f t = t"
    "filteredSignals (card_click t t) (Some \<lparr>signals = Some xs\<rparr>) = Some xs"
    "t \<noteq> [] \<and> f \<noteq> t \<longrightarrow>
      filteredSignals (card_click f t) (Some \<lparr>signals = Some xs\<rparr>) =
        Some (filter (\<lambda>s. Get s ''signal_type'' = Str t) xs)"
    by (simp_all add: card_click_def filteredSignals_def)
  have stored: "sectorFilter (onSectorChange st v) = v"
    "searchTerm (onSectorChange st v) = searchTerm st"
    "signalFilter (onSectorChange st v) = signalFilter st"
    "signalFilter (onSignalChange st v) = v"
    "searchTerm (onSignalChange st v) = searchTerm st"
    "sectorFilter (onSignalChange st v) = sectorFilter st"
    by (simp_all add: onSectorChange_def onSignalChange_def)
  have again: "sectorFilter st = v \<longrightarrow>
      onSectorChange st v = st \<and>
      screener_view srt ys (onSectorChange st v) cfg = screener_view srt ys st cfg"
    "signalFilter st = v \<longrightarrow>
      onSignalChange st v = st \<and>
      screener_view srt ys (onSignalChange st v) cfg = screener_view srt ys st cfg"
    by (auto simp: onSectorChange_def onSignalChange_def)
  have emptied: "sectorFilter (onSectorChange st v) = [] \<longleftrightarrow> v = []"
    "signalFilter (onSignalChange st v) = [] \<longleftrightarrow> v = []"
    by (simp_all add: onSectorChange_def onSignalChange_def)
  have cleared: "clearFilters st = \<lparr>searchTerm = [], sectorFilter = [], signalFilter = []\<rparr>"
    by (simp add: clearFilters_def)
  have views:
    "engine_sort srt \<and> v \<noteq> [] \<and> searchTerm st = [] \<and> signalFilter st = [] \<longrightarrow>
      (\<exists>view. screener_view srt ys (onSectorChange st v) cfg = Inr view \<and>
              mset view = filter_mset (\<lambda>s. Get s ''sector'' = Str v) (mset ys))"
    "engine_sort srt \<and> v \<noteq> [] \<and> searchTerm st = [] \<and> sectorFilter st = [] \<longrightarrow>
      (\<exists>view. screener_view srt ys (onSignalChange st v) cfg = Inr view \<and>
              mset view = filter_mset (\<lambda>s. Get s ''signal_type'' = Str v) (mset ys))"
    "engine_sort srt \<longrightarrow>
      (\<exists>view. screener_view srt ys (clearFilters st) cfg = Inr view \<and> mset view = mset ys)"
    using screener_view_of_sector [of srt v st ys cfg]
      screener_view_of_signal [of srt v st ys cfg] screener_view_cleared [of srt ys st cfg]
    by simp_all
  show ?thesis
    by (intro conjI) (rule cards stored again emptied cleared views)+
qed

theorem signal_card_toggles_sector_choice_sets_witness:
  "card_click ''Buy'' ''Buy'' = [] \<and>
   card_click ''Hold'' ''Buy'' = ''Buy'' \<and>
   filteredSignals (card_click ''Hold'' ''Buy'')
       (Some \<lparr>signals = Some [[(''symbol'', Str ''A''), (''signal_type'', Str ''Buy'')],
                              [(''symbol'', Str ''B''), (''signal_type'', Str ''Hold'')]]\<rparr>) =
     Some [[(''symbol'', Str ''A''), (''signal_type'', Str ''Buy'')]] \<and>
   onSectorChange \<lparr>searchTerm = [], sectorFilter = ''IT'', signalFilter = []\<rparr> ''IT'' =
     \<lparr>searchTerm = [], sectorFilter = ''IT'', signalFilter = []\<rparr> \<and>
   (\<exists>view. screener_view insertion_sort [stock_A, stock_B, stock_C]
              (onSectorChange \<lparr>searchTerm = [], sectorFilter = ''IT'', signalFilter = []\<rparr> ''IT'')
              (by_score Desc) = Inr view \<and>
           mset view = {#stock_A, stock_B#}) \<and>
   (\<exists>view. screener_view insertion_sort [stock_A, stock_B, stock_C]
              (clearFilters \<lparr>searchTerm = ''b'', sectorFilter = ''IT'', signalFilter = []\<rparr>)
              (by_score Desc) = Inr view \<and>
           mset view = {#stock_A, stock_B, stock_C#})"
proof -
  have sector: "filter_mset (\<lambda>s. Get s ''sector'' = Str ''IT'') (mset [stock_A, stock_B, stock_C])
                  = {#stock_A, stock_B#}"
    by (simp add: scenario_sector_IT)
  from signal_card_toggles_sector_choice_sets [of "''Buy''" "''Hold''"
      "[[(''symbol'', Str ''A''), (''signal_type'', Str ''Buy'')],
        [(''symbol'', Str ''B''), (''signal_type'', Str ''Hold'')]]"
      "\<lparr>searchTerm = [], sectorFilter = ''IT'', signalFilter = []\<rparr>" "''IT''"
      insertion_sort "[stock_A, stock_B, stock_C]" "by_score Desc"]
    signal_card_toggles_sector_choice_sets [of "''Buy''" "''Hold''" "[]"
      "\<lparr>searchTerm = ''b'', sectorFilter = ''IT'', signalFilter = []\<rparr>" "''IT''"
      insertion_sort "[stock_A, stock_B, stock_C]" "by_score Desc"]
    engine_sort_insertion_sort sector
  show ?thesis by (auto simp: Get_def add_mset_commute)
qed

section \<open>The facets\<close>

lemma fold_Set_add:
  "distinct acc \<Longrightarrow>
   distinct (fold Set_add xs acc) \<and> set (fold Set_add xs acc) = set acc \<union> set xs"
  by (induction xs arbitrary: acc) (auto simp: Set_add_def)

lemma distinct_Set_values: "distinct (Set_values xs)"
  using fold_Set_add [of "[]" xs] by (simp add: Set_values_def)

lemma set_Set_values: "set (Set_values xs) = set xs"
  using fold_Set_add [of "[]" xs] by (simp add: Set_values_def)

lemma sort_default_defined:
  assumes "Undefined \<notin> set vs"
  shows "sort_default nts vs = sort_key (ToString nts) vs"
proof -
  from assms have "filter (\<lambda>v. v \<noteq> Undefined) vs = vs"
    by (induction vs) auto
  moreover from assms have "filter (\<lambda>v. v = Undefined) vs = []"
    by (induction vs) auto
  ultimately show ?thesis by (simp add: sort_default_def)
qed

lemma sectors_sort_key:
  "sectors nts xs =
     sort_key (ToString nts) (Set_values (filter ToBoolean (map (\<lambda>s. Get s ''sector'') xs)))"
proof -
  have "Undefined \<notin> set (Set_values (filter ToBoolean (map (\<lambda>s. Get s ''sector'') xs)))"
    by (auto simp: set_Set_values)
  then show ?thesis by (simp add: sectors_def sort_default_defined)
qed

lemma set_sectors:
  "set (sectors nts xs) = {v \<in> (\<lambda>s. Get s ''sector'') ` set xs. ToBoolean v}"
  by (auto simp: sectors_sort_key set_Set_values)

lemma distinct_sectors: "distinct (sectors nts xs)"
  by (simp add: sectors_sort_key distinct_Set_values)

lemma sorted_sectors: "sorted (map (ToString nts) (sectors nts xs))"
  by (simp add: sectors_sort_key)

lemma truthy_text: "is_text v \<Longrightarrow> ToBoolean v \<Longrightarrow> \<exists>x. x \<noteq> [] \<and> v = Str x"
  by (cases v) simp_all

lemma sector_name_iff: "x \<in> set (sector_name v) \<longleftrightarrow> x \<noteq> [] \<and> v = Str x"
  by (cases v) auto

lemma sectors_of_text:
  assumes typed: "\<forall>s \<in> set xs. is_text (Get s ''sector'')"
  shows "sectors nts xs = map Str (facets_spec xs)"
proof -
  let ?L = "sectors nts xs"
  let ?names = "set (concat (map (\<lambda>s. sector_name (Get s ''sector'')) xs))"
  have strings: "\<exists>x. x \<noteq> [] \<and> v = Str x" if "v \<in> set ?L" for v
  proof -
    from that obtain s where "s \<in> set xs" and "v = Get s ''sector''" and "ToBoolean v"
      by (auto simp: set_sectors)
    with typed show ?thesis by (auto intro: truthy_text)
  qed
  have restore: "map Str (map (ToString nts) ?L) = ?L"
  proof -
    have "Str (ToString nts v) = v" if "v \<in> set ?L" for v
      using strings [OF that] by auto
    then show ?thesis by (simp add: map_idI)
  qed
  have inj: "inj_on (ToString nts) (set ?L)"
  proof (rule inj_onI)
    fix v w
    assume "v \<in> set ?L" and "w \<in> set ?L" and "ToString nts v = ToString nts w"
    with strings [of v] strings [of w] show "v = w" by auto
  qed
  have names: "set (map (ToString nts) ?L) = ?names"
  proof (rule set_eqI)
    fix x
    show "x \<in> set (map (ToString nts) ?L) \<longleftrightarrow> x \<in> ?names"
    proof
      assume "x \<in> set (map (ToString nts) ?L)"
      then obtain v where v: "v \<in> set ?L" and x: "x = ToString nts v" by auto
      from strings [OF v] x have vx: "v = Str x" and ne: "x \<noteq> []" by auto
      from v obtain s where "s \<in> set xs" and "v = Get s ''sector''"
        by (auto simp: set_sectors)
      with vx ne show "x \<in> ?names" by (auto simp: sector_name_iff)
    next
      assume "x \<in> ?names"
      then obtain s where s: "s \<in> set xs" and "x \<noteq> []" and g: "Get s ''sector'' = Str x"
        by (auto simp: sector_name_iff)
      then have "Str x \<in> set ?L" by (force simp: set_sectors)
      then have "ToString nts (Str x) \<in> ToString nts ` set ?L" by (rule imageI)
      then show "x \<in> set (map (ToString nts) ?L)" by simp
    qed
  qed
  have "map (ToString nts) ?L = facets_spec xs"
  proof (rule sorted_distinct_set_unique)
    show "sorted (map (ToString nts) ?L)" by (rule sorted_sectors)
    show "distinct (map (ToString nts) ?L)" by (simp add: distinct_map distinct_sectors inj)
    show "sorted (facets_spec xs)" by (simp add: facets_spec_def)
    show "distinct (facets_spec xs)" by (simp add: facets_spec_def)
    show "set (map (ToString nts) ?L) = set (facets_spec xs)"
      unfolding names by (simp add: facets_spec_def)
  qed
  with restore show ?thesis by simp
qed

text \<open>
  C2. For every collection, the facet list has no duplicates, holds exactly the sector
  values of the collection that are not empty (not \<open>null\<close>, not absent, not the empty
  string; in general, truthy), and is in the lexicographic order of their strings. Where
  the sectors are strings or missing, as the data model types them, it is the sorted
  duplicate-free list of the non-empty sector strings.
\<close>

theorem facets_are_the_sorted_distinct_sectors:
  "distinct (sectors nts xs) \<and>
   set (sectors nts xs) = {v \<in> (\<lambda>s. Get s ''sector'') ` set xs. ToBoolean v} \<and>
   sorted (map (ToString nts) (sectors nts xs)) \<and>
   ((\<forall>s \<in> set xs. is_text (Get s ''sector'')) \<longrightarrow>
      sectors nts xs = map Str (facets_spec xs) \<and>
      sorted (facets_spec xs) \<and> distinct (facets_spec xs) \<and>
      set (facets_spec xs) = {x. x \<noteq> [] \<and> (\<exists>s \<in> set xs. Get s ''sector'' = Str x)})"
proof -
  have "set (facets_spec xs) = {x. x \<noteq> [] \<and> (\<exists>s \<in> set xs. Get s ''sector'' = Str x)}"
    by (auto simp: facets_spec_def sector_name_iff)
  moreover have "sorted (facets_spec xs)" and "distinct (facets_spec xs)"
    by (simp_all add: facets_spec_def)
  ultimately show ?thesis
    using distinct_sectors [of nts xs] set_sectors [of nts xs] sorted_sectors [of nts xs]
      sectors_of_text [of xs nts]
    by blast
qed

theorem facets_are_the_sorted_distinct_sectors_witness:
  "sectors (\<lambda>q. []) [stock_C, stock_no_score, stock_B, stock_A] = [Str ''IT'', Str ''Pharma'']"
proof -
  have typed: "\<forall>s \<in> set [stock_C, stock_no_score, stock_B, stock_A]. is_text (Get s ''sector'')"
    by (simp add: stock_A_def stock_B_def stock_C_def stock_no_score_def Get_def)
  have spec: "facets_spec [stock_C, stock_no_score, stock_B, stock_A] = [''IT'', ''Pharma'']"
    by code_simp
  from facets_are_the_sorted_distinct_sectors
      [of "\<lambda>q. []" "[stock_C, stock_no_score, stock_B, stock_A]"] typed spec
  show ?thesis by simp
qed

section \<open>The store\<close>

lemma prefix_update_beyond:
  assumes "prefix st0 st" and "length st0 \<le> r"
  shows "prefix st0 (st[r := v])"
proof -
  from assms(1) obtain zs where "st = st0 @ zs" by (auto simp: prefix_def)
  with assms(2) have "st[r := v] = st0 @ zs[r - length st0 := v]"
    by (simp add: list_update_append)
  then show ?thesis by (simp add: prefix_def)
qed

lemma prefix_nth: "prefix st0 st \<Longrightarrow> a < length st0 \<Longrightarrow> st ! a = st0 ! a"
  by (auto simp: prefix_def nth_append)

lemma filter_in_store_holds:
  assumes "prefix st0 st" and "length st0 \<le> r" and "r < length st"
  shows "holds_result st0 (filter_in_store f st r) (array_filter f (stocks_of (st ! r)))"
proof (cases "array_filter f (stocks_of (st ! r))")
  case (Inl e)
  with assms show ?thesis by (simp add: filter_in_store_def holds_result_def)
next
  case (Inr ys)
  with assms show ?thesis by (simp add: filter_in_store_def alloc_def holds_result_def)
qed

lemma filter_stage_holds:
  assumes "holds_result st0 sr res"
  shows "holds_result st0 (filter_stage active f sr) (filter_step active f res)"
proof -
  obtain st out where sr: "sr = (st, out)" by (cases sr)
  show ?thesis
  proof (cases out)
    case (Inl e)
    with assms sr show ?thesis
      by (simp add: holds_result_def filter_stage_def filter_step_def)
  next
    case (Inr r)
    with assms sr have pre: "prefix st0 st" "length st0 \<le> r" "r < length st"
      and res: "res = Inr (stocks_of (st ! r))"
      by (simp_all add: holds_result_def)
    show ?thesis
    proof (cases active)
      case True
      with filter_in_store_holds [OF pre, of f] sr Inr res show ?thesis
        by (simp add: filter_stage_def filter_step_def)
    next
      case False
      with assms sr Inr res show ?thesis
        by (simp add: filter_stage_def filter_step_def)
    qed
  qed
qed

lemma filteredStocks_steps:
  "filteredStocks srt xs q c g cfg =
     (case filter_step (g \<noteq> []) (signal_match g)
             (filter_step (c \<noteq> []) (sector_match c)
               (filter_step (q \<noteq> []) (search_match (toLowerCase q)) (Inr xs))) of
        Inl e \<Rightarrow> Inl e
      | Inr r3 \<Rightarrow> Inr (srt (compare_stocks cfg) r3))"
  by (simp add: filteredStocks_def filter_step_def split: sum.splits)

text \<open>The screener's computation on the store computes the view, in a new array.\<close>

lemma filteredStocks_store_holds:
  assumes "st ! a = Stocks xs"
  shows "holds_result st (filteredStocks_store srt st a q c g cfg)
           (filteredStocks srt xs q c g cfg)"
proof -
  let ?sr = "filter_stage (g \<noteq> []) (signal_match g)
               (filter_stage (c \<noteq> []) (sector_match c)
                 (filter_stage (q \<noteq> []) (search_match (toLowerCase q))
                   (st @ [Stocks xs], Inr (length st))))"
  let ?res = "filter_step (g \<noteq> []) (signal_match g)
               (filter_step (c \<noteq> []) (sector_match c)
                 (filter_step (q \<noteq> []) (search_match (toLowerCase q)) (Inr xs)))"
  have start: "holds_result st (st @ [Stocks xs], Inr (length st)) (Inr xs)"
    by (simp add: holds_result_def)
  have filtered: "holds_result st ?sr ?res"
    by (intro filter_stage_holds start)
  have store: "filteredStocks_store srt st a q c g cfg =
      (case ?sr of
         (st3, Inl e) \<Rightarrow> (st3, Inl e)
       | (st3, Inr r3) \<Rightarrow> (sort_in_place srt (compare_stocks cfg) st3 r3, Inr r3))"
    using assms by (simp add: filteredStocks_store_def alloc_def)
  obtain st3 out where sr: "?sr = (st3, out)" by (cases ?sr)
  show ?thesis
  proof (cases out)
    case (Inl e)
    with filtered sr show ?thesis
      unfolding store filteredStocks_steps by (simp add: holds_result_def)
  next
    case (Inr r3)
    with filtered sr have pre: "prefix st st3" "length st \<le> r3" "r3 < length st3"
      and res: "?res = Inr (stocks_of (st3 ! r3))"
      by (simp_all add: holds_result_def)
    from pre have "prefix st (sort_in_place srt (compare_stocks cfg) st3 r3)"
      by (simp add: sort_in_place_def prefix_update_beyond)
    with pre res sr Inr show ?thesis
      unfolding store filteredStocks_steps
      by (simp add: holds_result_def sort_in_place_def)
  qed
qed

lemma filteredStocks_store_prefix:
  "prefix st (fst (filteredStocks_store srt st a q c g cfg))"
proof (cases "st ! a")
  case (Stocks xs)
  from filteredStocks_store_holds [OF this, of srt q c g cfg] show ?thesis
    by (auto simp: holds_result_def split: prod.splits sum.splits)
next
  case (Values vs)
  let ?sr = "filter_stage (g \<noteq> []) (signal_match g)
               (filter_stage (c \<noteq> []) (sector_match c)
                 (filter_stage (q \<noteq> []) (search_match (toLowerCase q))
                   (st @ [Values vs], Inr (length st))))"
  have start: "holds_result st (st @ [Values vs], Inr (length st)) (Inr [])"
    by (simp add: holds_result_def)
  have filtered: "holds_result st ?sr
      (filter_step (g \<noteq> []) (signal_match g)
        (filter_step (c \<noteq> []) (sector_match c)
          (filter_step (q \<noteq> []) (search_match (toLowerCase q)) (Inr []))))"
    by (intro filter_stage_holds start)
  have store: "filteredStocks_store srt st a q c g cfg =
      (case ?sr of
         (st3, Inl e) \<Rightarrow> (st3, Inl e)
       | (st3, Inr r3) \<Rightarrow> (sort_in_place srt (compare_stocks cfg) st3 r3, Inr r3))"
    using Values by (simp add: filteredStocks_store_def alloc_def)
  from filtered show ?thesis
    unfolding store
    by (auto simp: holds_result_def sort_in_place_def prefix_update_beyond
        split: prod.splits sum.splits)
qed

lemma sectors_store_eq:
  "sectors_store nts st a =
     (st @ [Values (map (\<lambda>s. Get s ''sector'') (stocks_of (st ! a))),
            Values (filter ToBoolean (map (\<lambda>s. Get s ''sector'') (stocks_of (st ! a)))),
            Values (sectors nts (stocks_of (st ! a)))],
      length st + 2)"
  by (simp add: sectors_store_def alloc_def sectors_def nth_append list_update_append)

text \<open>A sort on the array of the collection itself would be seen in the store.\<close>

lemma sort_in_place_is_seen:
  "sort_in_place insertion_sort (compare_stocks (by_score Desc))
     [Stocks [stock_C, stock_A, stock_B]] 0 = [Stocks [stock_A, stock_B, stock_C]]"
  by code_simp

text \<open>
  C9. Computing the view and computing the facets leave every array that was in the
  store where it was and as it was: the store afterwards begins with the store before.
  So the array of the collection holds the same records in the same order. The view and
  the facets are in arrays that were not in the store before (the sort runs on one of
  those), and they are the view and the facets computed on the collection's records.
\<close>

theorem computing_leaves_the_collection_unchanged:
  "prefix st (fst (filteredStocks_store srt st a q c g cfg)) \<and>
   prefix st (fst (sectors_store nts st a)) \<and>
   (a < length st \<longrightarrow>
      fst (filteredStocks_store srt st a q c g cfg) ! a = st ! a \<and>
      fst (sectors_store nts st a) ! a = st ! a) \<and>
   (a < length st \<and> st ! a = Stocks xs \<longrightarrow>
      (case filteredStocks_store srt st a q c g cfg of
         (st', Inl e) \<Rightarrow> filteredStocks srt xs q c g cfg = Inl e
       | (st', Inr r) \<Rightarrow>
           length st \<le> r \<and> r < length st' \<and>
           filteredStocks srt xs q c g cfg = Inr (stocks_of (st' ! r))) \<and>
      (case sectors_store nts st a of
         (st', r) \<Rightarrow> length st \<le> r \<and> r < length st' \<and> values_of (st' ! r) = sectors nts xs))"
proof -
  have view_frame: "prefix st (fst (filteredStocks_store srt st a q c g cfg))"
    by (rule filteredStocks_store_prefix)
  have facet_frame: "prefix st (fst (sectors_store nts st a))"
    by (simp add: sectors_store_eq)
  have same: "fst (filteredStocks_store srt st a q c g cfg) ! a = st ! a"
       "fst (sectors_store nts st a) ! a = st ! a"
    if "a < length st"
    using that view_frame facet_frame by (simp_all add: prefix_nth)
  have view: "case filteredStocks_store srt st a q c g cfg of
         (st', Inl e) \<Rightarrow> filteredStocks srt xs q c g cfg = Inl e
       | (st', Inr r) \<Rightarrow>
           length st \<le> r \<and> r < length st' \<and>
           filteredStocks srt xs q c g cfg = Inr (stocks_of (st' ! r))"
    if "st ! a = Stocks xs"
    using filteredStocks_store_holds [OF that, of srt q c g cfg]
    by (auto simp: holds_result_def split: prod.splits sum.splits)
  have facets: "case sectors_store nts st a of
         (st', r) \<Rightarrow> length st \<le> r \<and> r < length st' \<and> values_of (st' ! r) = sectors nts xs"
    if "st ! a = Stocks xs"
    using that by (simp add: sectors_store_eq nth_append)
  have both: "(case filteredStocks_store srt st a q c g cfg of
         (st', Inl e) \<Rightarrow> filteredStocks srt xs q c g cfg = Inl e
       | (st', Inr r) \<Rightarrow>
           length st \<le> r \<and> r < length st' \<and>
           filteredStocks srt xs q c g cfg = Inr (stocks_of (st' ! r))) \<and>
      (case sectors_store nts st a of
         (st', r) \<Rightarrow> length st \<le> r \<and> r < length st' \<and> values_of (st' ! r) = sectors nts xs)"
    if "a < length st \<and> st ! a = Stocks xs"
    using that view facets by simp
  show ?thesis
  proof (intro conjI impI)
    show "prefix st (fst (filteredStocks_store srt st a q c g cfg))" by (rule view_frame)
    show "prefix st (fst (sectors_store nts st a))" by (rule facet_frame)
  qed (rule same both [THEN conjunct1] both [THEN conjunct2], assumption)+
qed

theorem computing_leaves_the_collection_unchanged_witness:
  "fst (filteredStocks_store insertion_sort [Stocks [stock_C, stock_A, stock_B]] 0 [] ''IT'' []
          (by_score Desc)) ! 0 = Stocks [stock_C, stock_A, stock_B] \<and>
   fst (sectors_store (\<lambda>q. []) [Stocks [stock_C, stock_A, stock_B]] 0) ! 0 =
     Stocks [stock_C, stock_A, stock_B] \<and>
   prefix [Stocks [stock_C, stock_A, stock_B]]
     (fst (filteredStocks_store insertion_sort [Stocks [stock_C, stock_A, stock_B]] 0 [] ''IT'' []
            (by_score Desc)))"
  using computing_leaves_the_collection_unchanged
    [of "[Stocks [stock_C, stock_A, stock_B]]" insertion_sort 0 "[]" "''IT''" "[]" "by_score Desc"
        "\<lambda>q. []" "[stock_C, stock_A, stock_B]"]
  by simp

section \<open>The market clock\<close>

text \<open>
  C10. On a date whose fields are in the range the getters give (a day of the week from
  0 to 6, a minute below 60), \<open>isMarketOpen\<close> is true exactly when the day is Monday to
  Friday (1 to 5) and the time, in hours and minutes, is from 09:15 to 15:30, both ends
  included. On a Saturday (6) or a Sunday (0) it is false whatever the time.
\<close>

theorem isMarketOpen_weekday_hours:
  "(getDay d \<le> 6 \<and> getMinutes d < 60 \<longrightarrow>
      (isMarketOpen d \<longleftrightarrow>
         (1 \<le> getDay d \<and> getDay d \<le> 5) \<and>
         (9 < getHours d \<or> (getHours d = 9 \<and> 15 \<le> getMinutes d)) \<and>
         (getHours d < 15 \<or> (getHours d = 15 \<and> getMinutes d \<le> 30)))) \<and>
   (getDay d = 0 \<or> getDay d = 6 \<longrightarrow> \<not> isMarketOpen d)"
proof -
  have weekend: "getDay d = 0 \<or> getDay d = 6 \<longrightarrow> \<not> isMarketOpen d"
    by (simp add: isMarketOpen_def)
  have open_iff: "isMarketOpen d \<longleftrightarrow>
         (1 \<le> getDay d \<and> getDay d \<le> 5) \<and>
         (9 < getHours d \<or> (getHours d = 9 \<and> 15 \<le> getMinutes d)) \<and>
         (getHours d < 15 \<or> (getHours d = 15 \<and> getMinutes d \<le> 30))"
    if "getDay d \<le> 6" and "getMinutes d < 60"
    using that unfolding isMarketOpen_def Let_def by auto
  from weekend open_iff show ?thesis by blast
qed

theorem isMarketOpen_weekday_hours_witness:
  "isMarketOpen \<lparr>getDay = 1, getHours = 9, getMinutes = 15\<rparr> \<and>
   isMarketOpen \<lparr>getDay = 5, getHours = 15, getMinutes = 30\<rparr> \<and>
   \<not> isMarketOpen \<lparr>getDay = 3, getHours = 15, getMinutes = 31\<rparr> \<and>
   \<not> isMarketOpen \<lparr>getDay = 2, getHours = 9, getMinutes = 14\<rparr> \<and>
   \<not> isMarketOpen \<lparr>getDay = 6, getHours = 10, getMinutes = 0\<rparr> \<and>
   \<not> isMarketOpen \<lparr>getDay = 0, getHours = 10, getMinutes = 0\<rparr>"
  using isMarketOpen_weekday_hours [of "\<lparr>getDay = 1, getHours = 9, getMinutes = 15\<rparr>"]
    isMarketOpen_weekday_hours [of "\<lparr>getDay = 5, getHours = 15, getMinutes = 30\<rparr>"]
    isMarketOpen_weekday_hours [of "\<lparr>getDay = 3, getHours = 15, getMinutes = 31\<rparr>"]
    isMarketOpen_weekday_hours [of "\<lparr>getDay = 2, getHours = 9, getMinutes = 14\<rparr>"]
    isMarketOpen_weekday_hours [of "\<lparr>getDay = 6, getHours = 10, getMinutes = 0\<rparr>"]
    isMarketOpen_weekday_hours [of "\<lparr>getDay = 0, getHours = 10, getMinutes = 0\<rparr>"]
  by simp

section \<open>The sort configuration\<close>

text \<open>
  C7. Choosing the sort key that is already the active one flips the direction:
  descending becomes ascending, ascending becomes descending. Choosing another key
  makes it the active key, with direction descending.
\<close>

theorem handleSort_flips_or_resets:
  "(key prev = k \<longrightarrow>
      key (handleSort prev k) = k \<and>
      (direction prev = Desc \<longrightarrow> direction (handleSort prev k) = Asc) \<and>
      (direction prev = Asc \<longrightarrow> direction (handleSort prev k) = Desc)) \<and>
   (key prev \<noteq> k \<longrightarrow> handleSort prev k = \<lparr>key = k, direction = Desc\<rparr>)"
  by (simp add: handleSort_def)

theorem handleSort_flips_or_resets_witness:
  "direction (handleSort \<lparr>key = ''rsi'', direction = Desc\<rparr> ''rsi'') = Asc \<and>
   direction (handleSort \<lparr>key = ''rsi'', direction = Asc\<rparr> ''rsi'') = Desc \<and>
   handleSort \<lparr>key = ''rsi'', direction = Asc\<rparr> ''close'' = \<lparr>key = ''close'', direction = Desc\<rparr>"
  using handleSort_flips_or_resets [of "\<lparr>key = ''rsi'', direction = Desc\<rparr>" "''rsi''"]
    handleSort_flips_or_resets [of "\<lparr>key = ''rsi'', direction = Asc\<rparr>" "''rsi''"]
    handleSort_flips_or_resets [of "\<lparr>key = ''rsi'', direction = Asc\<rparr>" "''close''"]
  by simp

end
